theory Spec2Isabelle
  imports Main "HOL-Library.Word" "HOL-Library.Sublist"
begin

unbundle bit_operations_syntax

section \<open>Strings and lexical paths (Go \<open>strings\<close> and \<open>path/filepath\<close> on Unix)\<close>

text \<open>
  A Go string is a sequence of bytes, here a \<open>string\<close> (a list of 8-bit characters).
  The functions of the standard library that \<open>isPathSafe\<close> and \<open>Extract\<close> call are
  written out as the library computes them on a Unix system, where the separator is
  \<open>/\<close> and there are no volume names.
\<close>

text \<open>\<open>strings.Contains(s, substr)\<close>: \<open>substr\<close> occurs somewhere inside \<open>s\<close>.\<close>

fun Contains :: "string \<Rightarrow> string \<Rightarrow> bool" where
  "Contains [] substr = (substr = [])"
| "Contains (c # cs) substr = (prefix substr (c # cs) \<or> Contains cs substr)"

text \<open>\<open>strings.HasPrefix(s, p)\<close>.\<close>

definition HasPrefix :: "string \<Rightarrow> string \<Rightarrow> bool" where
  "HasPrefix s p = prefix p s"

text \<open>\<open>strings.ContainsRune(s, r)\<close> for a rune below 128, which is encoded as one byte.\<close>

definition ContainsRune :: "string \<Rightarrow> char \<Rightarrow> bool" where
  "ContainsRune s r = (r \<in> set s)"

text \<open>\<open>filepath.IsAbs\<close> on Unix: the path starts with a slash.\<close>

definition IsAbs :: "string \<Rightarrow> bool" where
  "IsAbs path = HasPrefix path ''/''"

text \<open>
  \<open>filepath.Clean\<close>. The library keeps a write index \<open>w\<close> into an output buffer and an
  index \<open>dotdot\<close> below which a \<open>..\<close> element must not remove anything. Here the buffer
  is the string \<open>out\<close> and \<open>w\<close> is its length.

  \<open>backtrack\<close> is the inner loop of the \<open>..\<close> case: after \<open>w\<close> has been decremented once,
  it moves \<open>w\<close> down to the last separator above \<open>dotdot\<close>.
\<close>

function backtrack :: "string \<Rightarrow> nat \<Rightarrow> nat \<Rightarrow> nat" where
  "backtrack buf w dotdot =
     (if w > dotdot \<and> buf ! w \<noteq> CHR ''/'' then backtrack buf (w - 1) dotdot else w)"
  by pat_completeness auto
termination
  by (relation "measure (\<lambda>(buf, w, dotdot). w)") auto

declare backtrack.simps [simp del]

function clean_loop :: "bool \<Rightarrow> string \<Rightarrow> string \<Rightarrow> nat \<Rightarrow> string" where
  "clean_loop rooted [] out dotdot = out"
| "clean_loop rooted (c # cs) out dotdot =
     (if c = CHR ''/'' then clean_loop rooted cs out dotdot
      else if c = CHR ''.'' \<and> (cs = [] \<or> hd cs = CHR ''/'') then
        clean_loop rooted cs out dotdot
      else if c = CHR ''.'' \<and> hd cs = CHR ''.'' \<and> (tl cs = [] \<or> hd (tl cs) = CHR ''/'') then
        (if length out > dotdot then
           clean_loop rooted (tl cs) (take (backtrack out (length out - 1) dotdot) out) dotdot
         else if \<not> rooted then
           (let out' = (if length out > 0 then out @ ''/'' else out) @ ''..''
            in clean_loop rooted (tl cs) out' (length out'))
         else clean_loop rooted (tl cs) out dotdot)
      else
        (let out' = (if rooted \<and> length out \<noteq> 1 \<or> \<not> rooted \<and> length out \<noteq> 0
                     then out @ ''/'' else out)
         in clean_loop rooted (dropWhile (\<lambda>x. x \<noteq> CHR ''/'') (c # cs))
              (out' @ takeWhile (\<lambda>x. x \<noteq> CHR ''/'') (c # cs)) dotdot))"
  by pat_completeness auto
termination
  by (relation "measure (\<lambda>(rooted, path, out, dotdot). length path)")
     (auto simp: less_Suc_eq_le length_dropWhile_le)

declare clean_loop.simps [simp del]

definition Clean :: "string \<Rightarrow> string" where
  "Clean path =
     (if path = [] then ''.''
      else
        (let rooted = (hd path = CHR ''/'');
             out = (if rooted then clean_loop True (tl path) ''/'' 1
                    else clean_loop False path [] 0)
         in if length out = 0 then ''.'' else out))"

text \<open>\<open>strings.Join(elems, sep)\<close>.\<close>

fun strings_Join :: "string list \<Rightarrow> string \<Rightarrow> string" where
  "strings_Join [] sep = []"
| "strings_Join [e] sep = e"
| "strings_Join (e # es) sep = e @ sep @ strings_Join es sep"

text \<open>
  \<open>filepath.Join\<close> on Unix: the elements from the first non-empty one on are joined
  with slashes and cleaned; if every element is empty the result is the empty string.
\<close>

fun Join :: "string list \<Rightarrow> string" where
  "Join [] = []"
| "Join (e # es) = (if e \<noteq> [] then Clean (strings_Join (e # es) ''/'') else Join es)"

text \<open>\<open>filepath.Dir\<close> on Unix: everything up to the last slash, cleaned.\<close>

definition Dir :: "string \<Rightarrow> string" where
  "Dir path = Clean (rev (dropWhile (\<lambda>x. x \<noteq> CHR ''/'') (rev path)))"

section \<open>The archive engine: path safety\<close>

text \<open>\<open>isPathSafe\<close> of \<open>internal/archive/archive.go\<close>.\<close>

definition isPathSafe :: "string \<Rightarrow> string \<Rightarrow> bool" where
  "isPathSafe path baseDir =
     (if path = [] then False
      else if Contains path ''..'' then False
      else if IsAbs path then False
      else if ContainsRune path (CHR 0x00) then False
      else
        (let fullPath = Join [baseDir, path];
             cleanPath = Clean fullPath
         in HasPrefix cleanPath (Clean baseDir)))"

section \<open>The archive engine: extraction\<close>

type_synonym int64 = "64 word"
type_synonym FileMode = "32 word"

text \<open>The resource ceilings, constants of the package.\<close>

definition MaxFileSize :: int where
  "MaxFileSize = 100 * 1024 * 1024"

definition MaxArchiveSize :: int where
  "MaxArchiveSize = 1024 * 1024 * 1024"

definition MaxFiles :: int where
  "MaxFiles = 10000"

text \<open>
  The fields of a \<open>tar.Header\<close> that the package reads or writes. \<open>Size\<close> and \<open>Mode\<close>
  are Go \<open>int64\<close>; they are read as signed numbers with \<open>sint\<close>. \<open>Typeflag\<close> is a byte.
\<close>

record Header =
  Name :: string
  Typeflag :: char
  Mode :: int64
  Size :: int64
  Linkname :: string

definition TypeReg :: char where "TypeReg = CHR ''0''"
definition TypeLink :: char where "TypeLink = CHR ''1''"
definition TypeSymlink :: char where "TypeSymlink = CHR ''2''"
definition TypeDir :: char where "TypeDir = CHR ''5''"

text \<open>
  What \<open>tarReader.Next()\<close> yields, one item per call until the end of the archive:
  a header together with the content bytes that follow it, or a decoding error.
\<close>

datatype tar_next = TarEntry Header string | TarError

text \<open>
  The archive file as \<open>Extract\<close> finds it: it cannot be opened, it is not an xz stream,
  or it decodes to a sequence of tar items.
\<close>

datatype archive_file = CannotOpen | NotXz | TarStream "tar_next list"

text \<open>
  The calls \<open>Extract\<close> makes on the destination filesystem, and their outcomes.
  The filesystem itself is a parameter: a function that performs a call on a state
  of type \<open>'fs\<close> and returns the outcome with the new state. \<open>Copy p bytes\<close> is
  \<open>io.Copy\<close> of an entry's content into the file just opened at \<open>p\<close>.
\<close>

datatype syscall =
    MkdirAll string FileMode
  | OpenFile string FileMode
  | Copy string string
  | Symlink string string
  | Link string string

datatype outcome = Ok | ErrExist | ErrOther

type_synonym 'fs os = "syscall \<Rightarrow> 'fs \<Rightarrow> outcome \<times> 'fs"

datatype warning =
    SkippingUnsafePath string
  | SkippingLargeFile string
  | FailedToCreateSymlink string
  | FailedToCreateHardLink string

datatype extract_error =
    FailedToOpenArchive
  | FailedToCreateXzReader
  | FailedToReadTarHeader
  | ArchiveTooLarge
  | TooManyFiles
  | FailedToCreateDirectory
  | FailedToCreateParentDirectory
  | FailedToCreateFile
  | FailedToWriteFile

text \<open>The variables of the loop of \<open>Extract\<close>, the warnings printed and the filesystem.\<close>

record 'fs extract_state =
  totalSize :: int64
  fileCount :: int64
  warnings :: "warning list"
  fs :: 'fs

definition warn :: "warning \<Rightarrow> 'fs extract_state \<Rightarrow> 'fs extract_state" where
  "warn w st = st\<lparr>warnings := warnings st @ [w]\<rparr>"

definition call :: "'fs os \<Rightarrow> syscall \<Rightarrow> 'fs extract_state \<Rightarrow> outcome \<times> 'fs extract_state" where
  "call os c st = (case os c (fs st) of (r, fs') \<Rightarrow> (r, st\<lparr>fs := fs'\<rparr>))"

text \<open>The mode \<open>0755\<close> (octal) that \<open>Extract\<close> gives to the parent directories it creates.\<close>

definition mode_0755 :: FileMode where
  "mode_0755 = 7 * 64 + 5 * 8 + 5"

text \<open>
  The \<open>switch header.Typeflag\<close> of \<open>Extract\<close>: the entry is applied to the filesystem.
  The result is \<open>Some\<close> error when the function returns from inside the switch.
\<close>

definition apply_entry ::
  "'fs os \<Rightarrow> string \<Rightarrow> Header \<Rightarrow> string \<Rightarrow> 'fs extract_state
     \<Rightarrow> extract_error option \<times> 'fs extract_state" where
  "apply_entry os destDir header body st =
     (let targetPath = Join [destDir, Name header] in
      if Typeflag header = TypeDir then
        (case call os (MkdirAll targetPath (ucast (Mode header))) st of
           (Ok, st1) \<Rightarrow> (None, st1)
         | (_, st1) \<Rightarrow> (Some FailedToCreateDirectory, st1))
      else if Typeflag header = TypeReg then
        (case call os (MkdirAll (Dir targetPath) mode_0755) st of
           (Ok, st1) \<Rightarrow>
             (case call os (OpenFile targetPath (ucast (Mode header))) st1 of
                (Ok, st2) \<Rightarrow>
                  (case call os (Copy targetPath body) st2 of
                     (Ok, st3) \<Rightarrow> (None, st3)
                   | (_, st3) \<Rightarrow> (Some FailedToWriteFile, st3))
              | (_, st2) \<Rightarrow> (Some FailedToCreateFile, st2))
         | (_, st1) \<Rightarrow> (Some FailedToCreateParentDirectory, st1))
      else if Typeflag header = TypeSymlink then
        (case call os (MkdirAll (Dir targetPath) mode_0755) st of
           (Ok, st1) \<Rightarrow>
             (case call os (Symlink (Linkname header) targetPath) st1 of
                (Ok, st2) \<Rightarrow> (None, st2)
              | (ErrExist, st2) \<Rightarrow> (None, st2)
              | (ErrOther, st2) \<Rightarrow> (None, warn (FailedToCreateSymlink (Name header)) st2))
         | (_, st1) \<Rightarrow> (Some FailedToCreateParentDirectory, st1))
      else if Typeflag header = TypeLink then
        (case call os (MkdirAll (Dir targetPath) mode_0755) st of
           (Ok, st1) \<Rightarrow>
             (let linkPath = Join [destDir, Linkname header] in
              case call os (Link linkPath targetPath) st1 of
                (Ok, st2) \<Rightarrow> (None, st2)
              | (_, st2) \<Rightarrow> (None, warn (FailedToCreateHardLink (Name header)) st2))
         | (_, st1) \<Rightarrow> (Some FailedToCreateParentDirectory, st1))
      else (None, st))"

text \<open>
  The loop of \<open>Extract\<close> over the items of the archive. The end of the list is
  \<open>io.EOF\<close>. The additions are those of Go's \<open>int64\<close> and \<open>int\<close>: they wrap.
\<close>

fun extract_loop ::
  "'fs os \<Rightarrow> string \<Rightarrow> tar_next list \<Rightarrow> 'fs extract_state
     \<Rightarrow> extract_error option \<times> 'fs extract_state" where
  "extract_loop os destDir [] st = (None, st)"
| "extract_loop os destDir (TarError # rest) st = (Some FailedToReadTarHeader, st)"
| "extract_loop os destDir (TarEntry header body # rest) st =
     (if \<not> isPathSafe (Name header) destDir then
        extract_loop os destDir rest (warn (SkippingUnsafePath (Name header)) st)
      else if sint (Size header) > MaxFileSize then
        extract_loop os destDir rest (warn (SkippingLargeFile (Name header)) st)
      else
        (let st1 = st\<lparr>totalSize := totalSize st + Size header\<rparr> in
         if sint (totalSize st1) > MaxArchiveSize then (Some ArchiveTooLarge, st1)
         else
           (let st2 = st1\<lparr>fileCount := fileCount st1 + 1\<rparr> in
            if sint (fileCount st2) > MaxFiles then (Some TooManyFiles, st2)
            else
              (case apply_entry os destDir header body st2 of
                 (Some e, st3) \<Rightarrow> (Some e, st3)
               | (None, st3) \<Rightarrow> extract_loop os destDir rest st3))))"

definition Extract ::
  "'fs os \<Rightarrow> archive_file \<Rightarrow> string \<Rightarrow> 'fs \<Rightarrow> extract_error option \<times> 'fs extract_state" where
  "Extract os archive destDir fs0 =
     (let st0 = \<lparr>totalSize = 0, fileCount = 0, warnings = [], fs = fs0\<rparr> in
      case archive of
        CannotOpen \<Rightarrow> (Some FailedToOpenArchive, st0)
      | NotXz \<Rightarrow> (Some FailedToCreateXzReader, st0)
      | TarStream items \<Rightarrow> extract_loop os destDir items st0)"

text \<open>
  A filesystem that performs nothing and records every call made on it, each call
  succeeding: the state is the list of calls so far.
\<close>

definition recording_os :: "(syscall list) os" where
  "recording_os c log = (Ok, log @ [c])"

subsection \<open>Notions used to state the properties of extraction\<close>

text \<open>
  The rule stated in the specification: the path has a \<open>..\<close> path segment. It is
  only compared with the test \<open>isPathSafe\<close> makes, which is on substrings.
\<close>

fun segments :: "string \<Rightarrow> string list" where
  "segments [] = [[]]"
| "segments (c # cs) =
     (if c = CHR ''/'' then [] # segments cs
      else (case segments cs of [] \<Rightarrow> [[c]] | s # ss \<Rightarrow> (c # s) # ss))"

definition spec_has_dotdot_segment :: "string \<Rightarrow> bool" where
  "spec_has_dotdot_segment path = (''..'' \<in> set (segments path))"

text \<open>
  An entry reaches the two ceilings when it passes the path check and the per-file
  size check, which both skip. \<open>counted\<close> are the headers of the items that do, and
  \<open>declared_sum\<close> is the sum of their declared sizes as mathematical integers.
\<close>

definition not_skipped :: "string \<Rightarrow> Header \<Rightarrow> bool" where
  "not_skipped destDir h = (isPathSafe (Name h) destDir \<and> \<not> sint (Size h) > MaxFileSize)"

fun counted :: "string \<Rightarrow> tar_next list \<Rightarrow> Header list" where
  "counted destDir [] = []"
| "counted destDir (TarError # rest) = counted destDir rest"
| "counted destDir (TarEntry h body # rest) =
     (if not_skipped destDir h then h # counted destDir rest else counted destDir rest)"

definition declared_sum :: "Header list \<Rightarrow> int" where
  "declared_sum hs = sum_list (map (\<lambda>h. sint (Size h)) hs)"

section \<open>The source directory as the walk sees it\<close>

text \<open>
  The bits of an \<open>os.FileMode\<close> (package \<open>io/fs\<close>): the type bits are at the top, the
  permission bits are the low nine.
\<close>

definition ModeDir :: FileMode where "ModeDir = push_bit 31 1"
definition ModeSymlink :: FileMode where "ModeSymlink = push_bit 27 1"
definition ModeDevice :: FileMode where "ModeDevice = push_bit 26 1"
definition ModeNamedPipe :: FileMode where "ModeNamedPipe = push_bit 25 1"
definition ModeSocket :: FileMode where "ModeSocket = push_bit 24 1"
definition ModeSetuid :: FileMode where "ModeSetuid = push_bit 23 1"
definition ModeSetgid :: FileMode where "ModeSetgid = push_bit 22 1"
definition ModeCharDevice :: FileMode where "ModeCharDevice = push_bit 21 1"
definition ModeSticky :: FileMode where "ModeSticky = push_bit 20 1"
definition ModeIrregular :: FileMode where "ModeIrregular = push_bit 19 1"

definition ModeType :: FileMode where
  "ModeType = ModeDir OR ModeSymlink OR ModeNamedPipe OR ModeSocket OR ModeDevice
              OR ModeCharDevice OR ModeIrregular"

definition ModePerm :: FileMode where
  "ModePerm = 7 * 64 + 7 * 8 + 7"

definition IsDir :: "FileMode \<Rightarrow> bool" where
  "IsDir m = (m AND ModeDir \<noteq> 0)"

definition IsRegular :: "FileMode \<Rightarrow> bool" where
  "IsRegular m = (m AND ModeType = 0)"

definition Perm :: "FileMode \<Rightarrow> FileMode" where
  "Perm m = m AND ModePerm"

text \<open>
  What \<open>os.Open\<close> and the reads that follow find at a path: nothing that can be
  opened, a file whose bytes are all read, or a file whose reads deliver some bytes
  and then fail. The filesystem is a function from paths to these.
\<close>

datatype disk_file = NoFile | File string | FailingFile string

type_synonym filesystem = "string \<Rightarrow> disk_file"

text \<open>
  One call of the function that \<open>filepath.Walk\<close> is given: the path of the object,
  the result of \<open>filepath.Rel(root, path)\<close> (\<open>None\<close> when it fails) and the mode that
  \<open>Lstat\<close> reported, or an error that \<open>Walk\<close> passes on (an object it could not
  \<open>Lstat\<close>, a directory it could not list). \<open>Walk\<close> calls the function for the root
  first, whose relative path is \<open>.\<close>, and then for every object below it, each
  directory before its contents, in lexical order.

  A source directory is the sequence of these calls together with what opening and
  reading each path finds and what \<open>os.Readlink\<close> returns. The size that \<open>Lstat\<close> reports
  for a file is the number of bytes it holds. \<open>tar_accepts\<close> tells whether the tar
  writer takes a header, and \<open>creatable\<close> whether \<open>os.Create\<close> succeeds on a path.
\<close>

datatype walk_call = Visit string "string option" FileMode | WalkErr string

record source =
  walked :: "walk_call list"
  holds :: filesystem
  readlink :: "string \<Rightarrow> string option"
  tar_accepts :: "Header \<Rightarrow> bool"
  creatable :: "string \<Rightarrow> bool"

definition file_size :: "disk_file \<Rightarrow> int64" where
  "file_size f = (case f of NoFile \<Rightarrow> 0 | File bytes \<Rightarrow> of_nat (length bytes)
                   | FailingFile bytes \<Rightarrow> of_nat (length bytes))"

section \<open>The archive engine: creation\<close>

definition TypeChar :: char where "TypeChar = CHR ''3''"
definition TypeBlock :: char where "TypeBlock = CHR ''4''"
definition TypeFifo :: char where "TypeFifo = CHR ''6''"

text \<open>The mode bits of a tar header: set-uid, set-gid and sticky (octal 4000, 2000, 1000).\<close>

definition c_ISUID :: int64 where "c_ISUID = 4 * 512"
definition c_ISGID :: int64 where "c_ISGID = 2 * 512"
definition c_ISVTX :: int64 where "c_ISVTX = 1 * 512"

text \<open>
  \<open>tar.FileInfoHeader(info, link)\<close>, for the fields of the header that the package
  uses. The name is left empty: \<open>Create\<close> overwrites it. The result is \<open>None\<close> for a
  socket and for a mode of unknown type.
\<close>

definition FileInfoHeader :: "FileMode \<Rightarrow> int64 \<Rightarrow> string \<Rightarrow> Header option" where
  "FileInfoHeader fm sz link =
     (let h = \<lparr>Name = [], Typeflag = TypeReg, Mode = ucast (Perm fm), Size = 0, Linkname = []\<rparr>;
          typed =
            (if IsRegular fm then Some (h\<lparr>Typeflag := TypeReg, Size := sz\<rparr>)
             else if IsDir fm then Some (h\<lparr>Typeflag := TypeDir\<rparr>)
             else if fm AND ModeSymlink \<noteq> 0 then Some (h\<lparr>Typeflag := TypeSymlink, Linkname := link\<rparr>)
             else if fm AND ModeDevice \<noteq> 0 then
               (if fm AND ModeCharDevice \<noteq> 0 then Some (h\<lparr>Typeflag := TypeChar\<rparr>)
                else Some (h\<lparr>Typeflag := TypeBlock\<rparr>))
             else if fm AND ModeNamedPipe \<noteq> 0 then Some (h\<lparr>Typeflag := TypeFifo\<rparr>)
             else None)
      in case typed of
           None \<Rightarrow> None
         | Some h1 \<Rightarrow>
             (let h2 = (if fm AND ModeSetuid \<noteq> 0 then h1\<lparr>Mode := Mode h1 OR c_ISUID\<rparr> else h1);
                  h3 = (if fm AND ModeSetgid \<noteq> 0 then h2\<lparr>Mode := Mode h2 OR c_ISGID\<rparr> else h2);
                  h4 = (if fm AND ModeSticky \<noteq> 0 then h3\<lparr>Mode := Mode h3 OR c_ISVTX\<rparr> else h3)
              in Some h4))"

datatype create_error =
    FailedToCreateArchiveFile
  | WalkFailed
  | FailedToGetRelativePath
  | FailedToCreateTarHeader
  | FailedToReadSymlink
  | FailedToWriteTarHeader
  | FailedToOpenSourceFile
  | FailedToWriteFileContent

record CreateResult =
  FilesAdded :: int64
  TotalSize :: int64

text \<open>
  What \<open>Create\<close> has produced so far: the headers written to the archive, each with
  the content that follows it, and the counters.
\<close>

record create_state =
  written :: "(Header \<times> string) list"
  result :: CreateResult

text \<open>
  The function \<open>Create\<close> passes to \<open>filepath.Walk\<close>, for one call. \<open>Inl\<close> is the error
  it returns, which stops the walk.
\<close>

definition create_visit :: "source \<Rightarrow> walk_call \<Rightarrow> create_state \<Rightarrow> create_error + create_state" where
  "create_visit src c st =
     (case c of
        WalkErr path \<Rightarrow> Inl WalkFailed
      | Visit path rel fm \<Rightarrow>
          (case rel of
             None \<Rightarrow> Inl FailedToGetRelativePath
           | Some relPath \<Rightarrow>
               if relPath = ''.'' then Inr st
               else
                 (case FileInfoHeader fm (file_size (holds src path)) [] of
                    None \<Rightarrow> Inl FailedToCreateTarHeader
                  | Some h0 \<Rightarrow>
                      (let h1 = h0\<lparr>Name := relPath\<rparr>;
                           linked =
                             (if fm AND ModeSymlink \<noteq> 0 then
                                (case readlink src path of
                                   None \<Rightarrow> None
                                 | Some link \<Rightarrow> Some (h1\<lparr>Linkname := link\<rparr>))
                              else Some h1)
                       in case linked of
                            None \<Rightarrow> Inl FailedToReadSymlink
                          | Some header \<Rightarrow>
                              if \<not> tar_accepts src header then Inl FailedToWriteTarHeader
                              else if IsRegular fm then
                                (case holds src path of
                                   NoFile \<Rightarrow> Inl FailedToOpenSourceFile
                                 | FailingFile bytes \<Rightarrow> Inl FailedToWriteFileContent
                                 | File bytes \<Rightarrow>
                                     Inr \<lparr>written = written st @ [(header, bytes)],
                                          result = \<lparr>FilesAdded = FilesAdded (result st) + 1,
                                                    TotalSize = TotalSize (result st)
                                                                + of_nat (length bytes)\<rparr>\<rparr>)
                              else
                                Inr \<lparr>written = written st @ [(header, [])],
                                     result = \<lparr>FilesAdded = FilesAdded (result st) + 1,
                                               TotalSize = TotalSize (result st)\<rparr>\<rparr>))))"

text \<open>The walk: the calls in order, stopping at the first error.\<close>

fun create_walk :: "source \<Rightarrow> walk_call list \<Rightarrow> create_state \<Rightarrow> create_error + create_state" where
  "create_walk src [] st = Inr st"
| "create_walk src (c # cs) st =
     (case create_visit src c st of
        Inl e \<Rightarrow> Inl e
      | Inr st' \<Rightarrow> create_walk src cs st')"

text \<open>
  \<open>Create\<close> of \<open>internal/archive/archive.go\<close>. On success it returns the counters; the
  archive written at \<open>archivePath\<close> is returned with them, as the sequence of headers
  and contents that the tar writer was given.
\<close>

definition Create :: "source \<Rightarrow> string \<Rightarrow> create_error + (CreateResult \<times> (Header \<times> string) list)" where
  "Create src archivePath =
     (if \<not> creatable src archivePath then Inl FailedToCreateArchiveFile
      else
        (case create_walk src (walked src)
                \<lparr>written = [], result = \<lparr>FilesAdded = 0, TotalSize = 0\<rparr>\<rparr> of
           Inl e \<Rightarrow> Inl e
         | Inr st \<Rightarrow> Inr (result st, written st)))"

text \<open>
  The archive file that \<open>Extract\<close> finds when it opens what \<open>Create\<close> wrote: the tar
  reader yields the headers and contents that the tar writer was given.
\<close>

definition archive_of :: "(Header \<times> string) list \<Rightarrow> archive_file" where
  "archive_of entries = TarStream (map (\<lambda>(h, body). TarEntry h body) entries)"

section \<open>The checksum manifest: CRC32\<close>

text \<open>
  \<open>hash/crc32\<close> with the IEEE polynomial, as the library's table-driven
  implementation computes it. The table is given as a function of its index;
  \<open>simplePopulateTable\<close> fills entry \<open>i\<close> by eight shift-and-xor steps from \<open>i\<close>.
\<close>

type_synonym uint32 = "32 word"

definition IEEE :: uint32 where
  "IEEE = 0xedb88320"

definition table_step :: "uint32 \<Rightarrow> uint32 \<Rightarrow> uint32" where
  "table_step poly crc = (if crc AND 1 = 1 then drop_bit 1 crc XOR poly else drop_bit 1 crc)"

definition MakeTable :: "uint32 \<Rightarrow> 8 word \<Rightarrow> uint32" where
  "MakeTable poly i = (table_step poly ^^ 8) (ucast i)"

definition CRC32Table :: "8 word \<Rightarrow> uint32" where
  "CRC32Table = MakeTable IEEE"

text \<open>
  \<open>simpleUpdate\<close>: the running value is complemented, each byte is folded in
  through the table, and the result is complemented again.
\<close>

definition update_byte :: "(8 word \<Rightarrow> uint32) \<Rightarrow> uint32 \<Rightarrow> char \<Rightarrow> uint32" where
  "update_byte tab crc v = tab (ucast crc XOR of_char v) XOR drop_bit 8 crc"

definition simpleUpdate :: "uint32 \<Rightarrow> (8 word \<Rightarrow> uint32) \<Rightarrow> string \<Rightarrow> uint32" where
  "simpleUpdate crc tab p = NOT (foldl (update_byte tab) (NOT crc) p)"

text \<open>\<open>crc32.Checksum(data, tab)\<close> is the update of \<open>0\<close>.\<close>

definition crc32_Checksum :: "string \<Rightarrow> (8 word \<Rightarrow> uint32) \<Rightarrow> uint32" where
  "crc32_Checksum data tab = simpleUpdate 0 tab data"

text \<open>\<open>CalculateCRC32Bytes\<close> of \<open>internal/checksum/crc32.go\<close>.\<close>

definition CalculateCRC32Bytes :: "string \<Rightarrow> uint32" where
  "CalculateCRC32Bytes data = crc32_Checksum data CRC32Table"

datatype io_error =
    FailedToOpenFile
  | FailedToReadFile
  | WalkError
  | FailedToGetRelPath
  | FailedToCalculateCRC32 string io_error
  | FailedToCreateSumsFile
  | FailedToWriteChecksum
  | FailedToOpenSums
  | ScannerError

text \<open>
  The loop of \<open>CalculateCRC32\<close>. Each \<open>file.Read\<close> fills the 64 KiB buffer from the
  bytes that remain; when none remain it returns no bytes with \<open>io.EOF\<close>, or with
  an error for a failing file. \<open>crc\<close> is the state of the hash.
\<close>

function read_loop :: "uint32 \<Rightarrow> string \<Rightarrow> bool \<Rightarrow> io_error + uint32" where
  "read_loop crc remaining fails =
     (let buf = take (64 * 1024) remaining;
          crc' = (if length buf > 0 then simpleUpdate crc CRC32Table buf else crc)
      in if remaining = [] then (if fails then Inl FailedToReadFile else Inr crc')
         else read_loop crc' (drop (64 * 1024) remaining) fails)"
  by pat_completeness auto
termination
  by (relation "measure (\<lambda>(crc, remaining, fails). length remaining)") auto

declare read_loop.simps [simp del]

text \<open>\<open>CalculateCRC32\<close> of \<open>internal/checksum/crc32.go\<close>.\<close>

definition CalculateCRC32 :: "filesystem \<Rightarrow> string \<Rightarrow> io_error + uint32" where
  "CalculateCRC32 disk filePath =
     (case disk filePath of
        NoFile \<Rightarrow> Inl FailedToOpenFile
      | File bytes \<Rightarrow> read_loop 0 bytes False
      | FailingFile bytes \<Rightarrow> read_loop 0 bytes True)"

section \<open>The checksum manifest: generation and verification\<close>

text \<open>\<open>Entry\<close> of \<open>internal/checksum/crc32.go\<close>: one record of the manifest.\<close>

record Entry =
  Checksum :: uint32
  Path :: string

text \<open>
  The verb \<open>%08x\<close> on a \<open>uint32\<close>: eight lower-case hexadecimal digits, the most
  significant first.
\<close>

definition hex_digit :: "nat \<Rightarrow> char" where
  "hex_digit n = ''0123456789abcdef'' ! n"

definition format_08x :: "uint32 \<Rightarrow> string" where
  "format_08x w = map (\<lambda>i. hex_digit (unat (drop_bit (4 * i) w AND 15))) [7, 6, 5, 4, 3, 2, 1, 0]"

text \<open>\<open>fmt.Fprintf(file, "%08x  %s\n", entry.Checksum, entry.Path)\<close>.\<close>

definition format_line :: "Entry \<Rightarrow> string" where
  "format_line entry = format_08x (Checksum entry) @ ''  '' @ Path entry @ [CHR 0x0A]"

text \<open>
  The function \<open>CreateCRC32Sums\<close> passes to \<open>filepath.Walk\<close>, for one call, on the
  list of entries collected so far.
\<close>

definition sums_visit :: "source \<Rightarrow> walk_call \<Rightarrow> Entry list \<Rightarrow> io_error + Entry list" where
  "sums_visit src c entries =
     (case c of
        WalkErr path \<Rightarrow> Inl WalkError
      | Visit path rel fm \<Rightarrow>
          if IsDir fm then Inr entries
          else
            (case rel of
               None \<Rightarrow> Inl FailedToGetRelPath
             | Some relPath \<Rightarrow>
                 (case CalculateCRC32 (holds src) path of
                    Inl e \<Rightarrow> Inl (FailedToCalculateCRC32 relPath e)
                  | Inr checksum \<Rightarrow>
                      Inr (entries @ [\<lparr>Checksum = checksum, Path = relPath\<rparr>]))))"

fun sums_walk :: "source \<Rightarrow> walk_call list \<Rightarrow> Entry list \<Rightarrow> io_error + Entry list" where
  "sums_walk src [] entries = Inr entries"
| "sums_walk src (c # cs) entries =
     (case sums_visit src c entries of
        Inl e \<Rightarrow> Inl e
      | Inr entries' \<Rightarrow> sums_walk src cs entries')"

text \<open>
  \<open>CreateCRC32Sums\<close>. The result is paired with the filesystem it leaves: on success
  the file at \<open>outputPath\<close> holds one line per entry, in the order of the entries.
  \<open>write_fails_at\<close> is the number of the record whose \<open>Fprintf\<close> fails, if any; the
  file then holds the lines written before it.
\<close>

definition CreateCRC32Sums ::
  "source \<Rightarrow> nat option \<Rightarrow> string \<Rightarrow> (io_error + Entry list) \<times> filesystem" where
  "CreateCRC32Sums src write_fails_at outputPath =
     (case sums_walk src (walked src) [] of
        Inl e \<Rightarrow> (Inl e, holds src)
      | Inr entries \<Rightarrow>
          if \<not> creatable src outputPath then (Inl FailedToCreateSumsFile, holds src)
          else
            (case write_fails_at of
               None \<Rightarrow>
                 (Inr entries, (holds src)(outputPath := File (concat (map format_line entries))))
             | Some n \<Rightarrow>
                 if n < length entries then
                   (Inl FailedToWriteChecksum,
                    (holds src)(outputPath := File (concat (map format_line (take n entries)))))
                 else
                   (Inr entries, (holds src)(outputPath := File (concat (map format_line entries))))))"

text \<open>
  \<open>bufio.Scanner\<close> with the default split function \<open>ScanLines\<close>: the lines of the
  text without their terminator, a trailing carriage return dropped; a last line
  without terminator counts when it is not empty. A line of \<open>MaxScanTokenSize\<close>
  bytes or more stops the scan with \<open>ErrTooLong\<close>: the flag of the result.
\<close>

definition MaxScanTokenSize :: nat where
  "MaxScanTokenSize = 64 * 1024"

definition dropCR :: "string \<Rightarrow> string" where
  "dropCR data = (if data \<noteq> [] \<and> last data = CHR 0x0D then butlast data else data)"

function scan_lines :: "string \<Rightarrow> string list \<times> bool" where
  "scan_lines data =
     (if data = [] then ([], False)
      else
        (let line = takeWhile (\<lambda>c. c \<noteq> CHR 0x0A) data;
             rest = drop 1 (dropWhile (\<lambda>c. c \<noteq> CHR 0x0A) data)
         in if length line \<ge> MaxScanTokenSize then ([], True)
            else (case scan_lines rest of (ls, e) \<Rightarrow> (dropCR line # ls, e))))"
  by pat_completeness auto
termination
proof (relation "measure length", goal_cases)
  case 1
  show ?case by simp
next
  case (2 data line rest)
  have "length (dropWhile (\<lambda>c. c \<noteq> CHR 0x0A) data) \<le> length data"
    by (rule length_dropWhile_le)
  moreover have "dropWhile (\<lambda>c. c \<noteq> CHR 0x0A) data = [] \<Longrightarrow> length data > 0"
    using 2 by simp
  ultimately show ?case using 2 by (cases "dropWhile (\<lambda>c. c \<noteq> CHR 0x0A) data") auto
qed

declare scan_lines.simps [simp del]

text \<open>
  \<open>strings.SplitN(s, sep, 2)\<close> for a separator that is not empty: the text before
  and after the first occurrence of the separator, or the text alone.
\<close>

fun split_first :: "string \<Rightarrow> string \<Rightarrow> (string \<times> string) option" where
  "split_first [] sep = None"
| "split_first (c # cs) sep =
     (if prefix sep (c # cs) then Some ([], drop (length sep) (c # cs))
      else (case split_first cs sep of
              None \<Rightarrow> None
            | Some (before, after) \<Rightarrow> Some (c # before, after)))"

definition SplitN2 :: "string \<Rightarrow> string \<Rightarrow> string list" where
  "SplitN2 s sep = (case split_first s sep of None \<Rightarrow> [s] | Some (before, after) \<Rightarrow> [before, after])"

text \<open>
  \<open>fmt.Sscanf(str, "%x", &expectedSum)\<close> with a \<open>uint32\<close> operand. Leading space is
  skipped, then the longest run of hexadecimal digits is the token. It is an error
  when there is no digit or the number does not fit 32 bits. What follows the token
  is not looked at.

  \<open>space_len\<close> is the number of bytes of a space character at the head of the text,
  \<open>0\<close> if there is none. The spaces are those of \<open>fmt\<close>: the ASCII ones other than the
  newline and, in UTF-8, U+0085, U+00A0, U+1680, U+2000 to U+200A, U+2028, U+2029,
  U+202F, U+205F and U+3000.
\<close>

definition space_len :: "string \<Rightarrow> nat" where
  "space_len s =
     (case s of
        [] \<Rightarrow> 0
      | c # cs \<Rightarrow>
          if c \<in> {CHR 0x09, CHR 0x0B, CHR 0x0C, CHR 0x0D, CHR 0x20} then 1
          else if c = CHR 0xC2 \<and> (take 1 cs = [CHR 0x85] \<or> take 1 cs = [CHR 0xA0]) then 2
          else if c = CHR 0xE1 \<and> take 2 cs = [CHR 0x9A, CHR 0x80] then 3
          else if c = CHR 0xE2 \<and> take 1 cs = [CHR 0x80] \<and> length cs \<ge> 2
                  \<and> ((of_char (cs ! 1) :: nat) \<in> {0x80..0x8A} \<or> cs ! 1 \<in> {CHR 0xA8, CHR 0xA9, CHR 0xAF})
               then 3
          else if c = CHR 0xE2 \<and> take 2 cs = [CHR 0x81, CHR 0x9F] then 3
          else if c = CHR 0xE3 \<and> take 2 cs = [CHR 0x80, CHR 0x80] then 3
          else 0)"

function SkipSpace :: "string \<Rightarrow> string" where
  "SkipSpace s = (if space_len s = 0 then s else SkipSpace (drop (space_len s) s))"
  by pat_completeness auto
termination
proof (relation "measure length", goal_cases)
  case 1
  show ?case by simp
next
  case (2 s)
  then have "s \<noteq> []" by (auto simp: space_len_def)
  with 2 show ?case by simp
qed

declare SkipSpace.simps [simp del]

definition is_hex_digit :: "char \<Rightarrow> bool" where
  "is_hex_digit c = (c \<in> set ''0123456789aAbBcCdDeEfF'')"

definition digit_val :: "char \<Rightarrow> int" where
  "digit_val c =
     (let n = of_char c in
      if of_char (CHR ''0'') \<le> n \<and> n \<le> of_char (CHR ''9'') then n - of_char (CHR ''0'')
      else if of_char (CHR ''a'') \<le> n \<and> n \<le> of_char (CHR ''f'') then n - of_char (CHR ''a'') + 10
      else n - of_char (CHR ''A'') + 10)"

definition hex_value :: "string \<Rightarrow> int" where
  "hex_value tok = foldl (\<lambda>acc c. acc * 16 + digit_val c) 0 tok"

definition Sscanf_x :: "string \<Rightarrow> uint32 option" where
  "Sscanf_x str =
     (let tok = takeWhile is_hex_digit (SkipSpace str) in
      if tok = [] then None
      else if hex_value tok \<ge> 4294967296 then None
      else Some (word_of_int (hex_value tok)))"

text \<open>The body of the loop of \<open>VerifyCRC32Sums\<close>, for one line of the manifest.\<close>

definition verify_line ::
  "filesystem \<Rightarrow> string \<Rightarrow> string \<Rightarrow> string list \<times> string list \<Rightarrow> string list \<times> string list" where
  "verify_line disk baseDir line acc =
     (case acc of
        (passed, failed) \<Rightarrow>
          if line = [] then (passed, failed)
          else
            (let parts = SplitN2 line ''  '' in
             if length parts \<noteq> 2 then (passed, failed)
             else
               (case Sscanf_x (parts ! 0) of
                  None \<Rightarrow> (passed, failed @ [parts ! 1])
                | Some expectedSum \<Rightarrow>
                    (let filePath = Join [baseDir, parts ! 1] in
                     case CalculateCRC32 disk filePath of
                       Inl e \<Rightarrow> (passed, failed @ [parts ! 1])
                     | Inr actualSum \<Rightarrow>
                         if actualSum = expectedSum then (passed @ [parts ! 1], failed)
                         else (passed, failed @ [parts ! 1])))))"

text \<open>
  \<open>VerifyCRC32Sums\<close>: the passed paths, the failed paths and the error. The error is
  that of opening the manifest or the one the scanner ends with.
\<close>

definition VerifyCRC32Sums ::
  "filesystem \<Rightarrow> string \<Rightarrow> string \<Rightarrow> string list \<times> string list \<times> io_error option" where
  "VerifyCRC32Sums disk sumsFile baseDir =
     (case disk sumsFile of
        NoFile \<Rightarrow> ([], [], Some FailedToOpenSums)
      | File text \<Rightarrow>
          (case scan_lines text of
             (ls, too_long) \<Rightarrow>
               (case foldl (\<lambda>acc line. verify_line disk baseDir line acc) ([], []) ls of
                  (passed, failed) \<Rightarrow>
                    (passed, failed, if too_long then Some ScannerError else None)))
      | FailingFile text \<Rightarrow>
          (case scan_lines text of
             (ls, too_long) \<Rightarrow>
               (case foldl (\<lambda>acc line. verify_line disk baseDir line acc) ([], []) ls of
                  (passed, failed) \<Rightarrow> (passed, failed, Some ScannerError))))"

section \<open>Notions used to state the properties of creation\<close>

text \<open>
  The calls of a walk that are for an object other than the root, and those among
  them that are for a regular file; the bytes a file holds.
\<close>

definition is_object :: "walk_call \<Rightarrow> bool" where
  "is_object c = (case c of Visit path (Some rel) fm \<Rightarrow> rel \<noteq> ''.'' | _ \<Rightarrow> False)"

definition is_regular_object :: "walk_call \<Rightarrow> bool" where
  "is_regular_object c =
     (case c of Visit path (Some rel) fm \<Rightarrow> rel \<noteq> ''.'' \<and> IsRegular fm | _ \<Rightarrow> False)"

definition bytes_of :: "disk_file \<Rightarrow> string" where
  "bytes_of f = (case f of NoFile \<Rightarrow> [] | File bytes \<Rightarrow> bytes | FailingFile bytes \<Rightarrow> bytes)"

definition content_of :: "source \<Rightarrow> walk_call \<Rightarrow> string" where
  "content_of src c = (case c of Visit path rel fm \<Rightarrow> bytes_of (holds src path) | WalkErr path \<Rightarrow> [])"

section \<open>Example directories\<close>

text \<open>
  The directory \<open>/src\<close> with a subdirectory \<open>docs\<close> that holds the regular file
  \<open>docs/a.txt\<close> with the bytes \<open>hello\<close>.
\<close>

definition docs_holds :: filesystem where
  "docs_holds path = (if path = ''/src/docs/a.txt'' then File ''hello'' else NoFile)"

definition no_links :: "string \<Rightarrow> string option" where
  "no_links path = None"

definition accept_all :: "'a \<Rightarrow> bool" where
  "accept_all x = True"

definition docs_source :: source where
  "docs_source =
     \<lparr>walked = [Visit ''/src'' (Some ''.'') (ModeDir OR 493),
                Visit ''/src/docs'' (Some ''docs'') (ModeDir OR 493),
                Visit ''/src/docs/a.txt'' (Some ''docs/a.txt'') 420],
      holds = docs_holds, readlink = no_links, tar_accepts = accept_all,
      creatable = accept_all\<rparr>"

section \<open>Notions used to state the properties of the manifest\<close>



text \<open>The calls of a walk that \<open>CreateCRC32Sums\<close> records: those not for a directory.\<close>

definition is_recorded :: "walk_call \<Rightarrow> bool" where
  "is_recorded c = (case c of Visit path rel fm \<Rightarrow> \<not> IsDir fm | WalkErr path \<Rightarrow> False)"

definition rel_of :: "walk_call \<Rightarrow> string" where
  "rel_of c = (case c of Visit path (Some rel) fm \<Rightarrow> rel | _ \<Rightarrow> [])"




text \<open>
  The directory \<open>/pkg\<close> with the regular file \<open>lib.so.1\<close>, which holds \<open>hello\<close>, and
  the symbolic link \<open>lib.so\<close> to it.
\<close>

definition lib_holds :: filesystem where
  "lib_holds path =
     (if path = ''/pkg/lib.so'' then File ''hello''
      else if path = ''/pkg/lib.so.1'' then File ''hello'' else NoFile)"

definition lib_links :: "string \<Rightarrow> string option" where
  "lib_links path = (if path = ''/pkg/lib.so'' then Some ''lib.so.1'' else None)"

definition lib_source :: source where
  "lib_source =
     \<lparr>walked = [Visit ''/pkg'' (Some ''.'') (ModeDir OR 493),
                Visit ''/pkg/lib.so'' (Some ''lib.so'') (ModeSymlink OR 511),
                Visit ''/pkg/lib.so.1'' (Some ''lib.so.1'') 420],
      holds = lib_holds, readlink = lib_links, tar_accepts = accept_all,
      creatable = accept_all\<rparr>"




text \<open>
  A manifest whose one line has the checksum field \<open>3610a686zz\<close>, beside the file
  \<open>a.txt\<close> that holds \<open>hello\<close>.
\<close>

definition junk_disk :: filesystem where
  "junk_disk path =
     (if path = ''/d/crc32sums'' then File (''3610a686zz  a.txt'' @ [CHR 0x0A])
      else if path = ''/d/a.txt'' then File ''hello'' else NoFile)"







section \<open>Notions used to state the round trip of the archive\<close>

text \<open>
  The mode that \<open>tar.FileInfoHeader\<close> stores for a file mode: the permission bits and
  the set-uid, set-gid and sticky bits in their tar encoding.
\<close>

definition tar_mode :: "FileMode \<Rightarrow> int64" where
  "tar_mode fm =
     ucast (Perm fm)
       OR (if fm AND ModeSetuid \<noteq> 0 then c_ISUID else 0)
       OR (if fm AND ModeSetgid \<noteq> 0 then c_ISGID else 0)
       OR (if fm AND ModeSticky \<noteq> 0 then c_ISVTX else 0)"

text \<open>
  The calls on the destination that reproduce one walked object of the source under
  \<open>destDir\<close>: a directory is created with its mode, a regular file is created with
  its mode under a parent that exists and is given its bytes, a symbolic link is
  created with its target. Nothing is done for the root, nor for devices and pipes.
\<close>

definition expected_calls :: "source \<Rightarrow> string \<Rightarrow> walk_call \<Rightarrow> syscall list" where
  "expected_calls src destDir c =
     (case c of
        WalkErr path \<Rightarrow> []
      | Visit path rel fm \<Rightarrow>
          (case rel of
             None \<Rightarrow> []
           | Some relPath \<Rightarrow>
               if relPath = ''.'' then []
               else
                 (let target = Join [destDir, relPath] in
                  if IsRegular fm then
                    [MkdirAll (Dir target) mode_0755,
                     OpenFile target (ucast (tar_mode fm)),
                     Copy target (bytes_of (holds src path))]
                  else if IsDir fm then [MkdirAll target (ucast (tar_mode fm))]
                  else if fm AND ModeSymlink \<noteq> 0 then
                    (case readlink src path of
                       None \<Rightarrow> []
                     | Some link \<Rightarrow> [MkdirAll (Dir target) mode_0755, Symlink link target])
                  else [])))"

text \<open>The number of bytes of the regular files among some calls of a walk.\<close>

definition regular_bytes :: "source \<Rightarrow> walk_call list \<Rightarrow> nat" where
  "regular_bytes src cs =
     sum_list (map (\<lambda>c. length (content_of src c)) (filter is_regular_object cs))"

text \<open>
  The directory \<open>/src\<close> with the one regular file \<open>notes..txt\<close>, which holds \<open>hello\<close>.
\<close>

definition dots_holds :: filesystem where
  "dots_holds path = (if path = ''/src/notes..txt'' then File ''hello'' else NoFile)"

definition dots_source :: source where
  "dots_source =
     \<lparr>walked = [Visit ''/src'' (Some ''.'') (ModeDir OR 493),
                Visit ''/src/notes..txt'' (Some ''notes..txt'') 420],
      holds = dots_holds, readlink = no_links, tar_accepts = accept_all,
      creatable = accept_all\<rparr>"

text \<open>
  The entry that stands in the archive for a walked object other than the root: its
  header carries the relative path, the stored mode and the kind of the object, and
  it is followed by the bytes of the file when the object is a regular file.
\<close>

definition packs :: "source \<Rightarrow> walk_call \<Rightarrow> Header \<times> string \<Rightarrow> bool" where
  "packs src c e =
     (case c of
        WalkErr path \<Rightarrow> False
      | Visit path rel fm \<Rightarrow>
          rel = Some (Name (fst e)) \<and> Name (fst e) \<noteq> ''.''
          \<and> Mode (fst e) = tar_mode fm
          \<and> Size (fst e) = of_nat (length (snd e))
          \<and> (if IsRegular fm then Typeflag (fst e) = TypeReg \<and> holds src path = File (snd e)
              else snd e = []
                \<and> (if IsDir fm then Typeflag (fst e) = TypeDir
                    else if fm AND ModeSymlink \<noteq> 0 then
                      Typeflag (fst e) = TypeSymlink
                      \<and> readlink src path = Some (Linkname (fst e))
                    else Typeflag (fst e) \<in> {TypeChar, TypeBlock, TypeFifo})))"

section \<open>Properties of the path check\<close>

lemma segments_nonempty: "segments p \<noteq> []"
  by (induction p) (auto split: list.splits)

lemma hd_segments_prefix: "prefix (hd (segments p)) p"
  by (induction p) (auto split: list.splits simp: segments_nonempty)

lemma segment_Contains: "s \<in> set (segments p) \<Longrightarrow> s \<noteq> [] \<Longrightarrow> Contains p s"
proof (induction p arbitrary: s)
  case Nil
  then show ?case by simp
next
  case (Cons c cs)
  show ?case
  proof (cases "c = CHR ''/''")
    case True
    with Cons show ?thesis by auto
  next
    case False
    obtain t ts where seg: "segments cs = t # ts"
      using segments_nonempty [of cs] by (cases "segments cs") auto
    with False have eq: "segments (c # cs) = (c # t) # ts" by simp
    from Cons.prems eq have "s = c # t \<or> s \<in> set ts" by auto
    then show ?thesis
    proof
      assume "s = c # t"
      moreover have "prefix t cs" using hd_segments_prefix [of cs] seg by simp
      ultimately show ?thesis by simp
    next
      assume "s \<in> set ts"
      with seg have "s \<in> set (segments cs)" by simp
      with Cons.IH Cons.prems(2) have "Contains cs s" by blast
      then show ?thesis by simp
    qed
  qed
qed

text \<open>
  The four unsafe paths of the test table are rejected whatever the destination is,
  and the plain relative path is accepted under the destination of the test table.
\<close>

lemma isPathSafe_rejects_unsafe:
  "isPathSafe ''../etc/passwd'' baseDir = False"
  "isPathSafe ''/etc/passwd'' baseDir = False"
  "isPathSafe [] baseDir = False"
  "isPathSafe ''foo/../../etc/passwd'' baseDir = False"
  by (simp_all add: isPathSafe_def IsAbs_def HasPrefix_def)

lemma isPathSafe_accepts_under_tmp_test:
  "isPathSafe ''dir/subdir/file.txt'' ''/tmp/test'' = True"
  "isPathSafe ''file.txt'' ''/tmp/test'' = True"
  by code_simp+

text \<open>
  C1. The claim is that \<open>isPathSafe\<close> accepts the plain relative path
  \<open>dir/subdir/file.txt\<close> for any destination directory. For the destination \<open>.\<close>
  the joined path is cleaned to \<open>dir/subdir/file.txt\<close>, the base to \<open>.\<close>, and the
  prefix test fails: the path is rejected, and \<open>Extract\<close> into \<open>.\<close> skips the entry.
\<close>

theorem isPathSafe_plain_path_under_dot:
  "isPathSafe ''dir/subdir/file.txt'' ''.'' = False
   \<and> Extract recording_os
        (TarStream [TarEntry \<lparr>Name = ''dir/subdir/file.txt'', Typeflag = TypeReg, Mode = 420,
                           Size = 2, Linkname = ''''\<rparr> ''hi''])
        ''.'' []
     = (None, \<lparr>totalSize = 0, fileCount = 0,
               warnings = [SkippingUnsafePath ''dir/subdir/file.txt''], fs = []\<rparr>)"
  by code_simp

text \<open>
  C10. Every path in which the two characters \<open>..\<close> occur anywhere is rejected by
  \<open>isPathSafe\<close>, and \<open>Extract\<close> skips the entry with a warning. The test is stronger
  than the absence of a \<open>..\<close> path segment: a path with such a segment contains the
  substring, and \<open>a..b/file.txt\<close> and \<open>notes..txt\<close> contain it without having the
  segment.
\<close>

theorem dotdot_substring_rejected:
  assumes "Contains (Name header) ''..''"
  shows "isPathSafe (Name header) destDir = False
       \<and> extract_loop os destDir (TarEntry header body # rest) st
         = extract_loop os destDir rest (warn (SkippingUnsafePath (Name header)) st)
       \<and> (\<forall>p. spec_has_dotdot_segment p \<longrightarrow> Contains p ''..'')
       \<and> \<not> spec_has_dotdot_segment ''a..b/file.txt''
       \<and> \<not> spec_has_dotdot_segment ''notes..txt''"
proof -
  have unsafe: "isPathSafe (Name header) destDir = False"
    using assms by (simp add: isPathSafe_def)
  have stronger: "\<forall>p. spec_has_dotdot_segment p \<longrightarrow> Contains p ''..''"
    by (auto simp: spec_has_dotdot_segment_def intro: segment_Contains)
  have "\<not> spec_has_dotdot_segment ''a..b/file.txt''" "\<not> spec_has_dotdot_segment ''notes..txt''"
    by (simp_all add: spec_has_dotdot_segment_def)
  with unsafe stronger show ?thesis by simp
qed

theorem dotdot_substring_rejected_witness:
  "Contains ''a..b/file.txt'' ''..''
   \<and> isPathSafe ''a..b/file.txt'' ''/tmp/test'' = False
   \<and> extract_loop recording_os ''/tmp/test''
        [TarEntry \<lparr>Name = ''a..b/file.txt'', Typeflag = TypeReg, Mode = 420, Size = 2,
                 Linkname = ''''\<rparr> ''hi'']
        \<lparr>totalSize = 0, fileCount = 0, warnings = [], fs = []\<rparr>
     = (None, \<lparr>totalSize = 0, fileCount = 0,
               warnings = [SkippingUnsafePath ''a..b/file.txt''], fs = []\<rparr>)"
proof -
  have h: "Contains (Name \<lparr>Name = ''a..b/file.txt'', Typeflag = TypeReg, Mode = 420, Size = 2,
                 Linkname = ''''\<rparr>) ''..''"
    by simp
  from dotdot_substring_rejected [OF h, of "''/tmp/test''" recording_os "''hi''" "[]"
       "\<lparr>totalSize = 0, fileCount = 0, warnings = [], fs = []\<rparr>"]
  show ?thesis by (simp add: warn_def)
qed

section \<open>Properties of the resource ceilings\<close>

lemma call_counters:
  "call os c st = (r, st') \<Longrightarrow>
     totalSize st' = totalSize st \<and> fileCount st' = fileCount st \<and> warnings st' = warnings st"
  by (auto simp: call_def split: prod.splits)

lemma apply_entry_counters:
  assumes "apply_entry os d h b st = (r, st')"
  shows "totalSize st' = totalSize st \<and> fileCount st' = fileCount st"
  using assms unfolding apply_entry_def Let_def
  by (auto split: if_splits prod.splits outcome.splits dest!: call_counters simp: warn_def)

lemma extract_loop_append:
  "extract_loop os d (xs @ ys) st =
     (case extract_loop os d xs st of
        (None, st') \<Rightarrow> extract_loop os d ys st'
      | (Some e, st') \<Rightarrow> (Some e, st'))"
proof (induction xs arbitrary: st)
  case Nil
  show ?case by simp
next
  case (Cons x xs)
  show ?case
  proof (cases x)
    case TarError
    then show ?thesis by simp
  next
    case (TarEntry h b)
    then show ?thesis
      by (simp add: Cons.IH Let_def split: prod.splits option.splits)
  qed
qed

lemma sint_of_int_64:
  "- (2 ^ 63) \<le> x \<Longrightarrow> x < 2 ^ 63 \<Longrightarrow> sint (word_of_int x :: 64 word) = x"
  by (simp add: sint_sbintrunc' signed_take_bit_int_eq_self)

text \<open>
  While the loop has not returned, \<open>totalSize\<close> and \<open>fileCount\<close> are the sum of the
  declared sizes and the number of the entries that were not skipped, and both are
  within their ceilings. The sizes of header-only entries may be negative, so the sum
  is kept as an integer and the variable is its 64-bit image.
\<close>

lemma extract_loop_invariant:
  assumes "extract_loop os d pre st = (None, st1)"
      and "totalSize st = word_of_int S" and "S \<le> MaxArchiveSize"
      and "fileCount st = word_of_int N" and "0 \<le> N" and "N \<le> MaxFiles"
  shows "totalSize st1 = word_of_int (S + declared_sum (counted d pre))
       \<and> S + declared_sum (counted d pre) \<le> MaxArchiveSize
       \<and> fileCount st1 = word_of_int (N + int (length (counted d pre)))
       \<and> N + int (length (counted d pre)) \<le> MaxFiles"
  using assms
proof (induction pre arbitrary: st S N)
  case Nil
  then show ?case by (simp add: declared_sum_def)
next
  case (Cons x xs)
  show ?case
  proof (cases x)
    case TarError
    with Cons.prems show ?thesis by simp
  next
    case (TarEntry h b)
    show ?thesis
    proof (cases "not_skipped d h")
      case False
      then have "extract_loop os d xs (warn (SkippingUnsafePath (Name h)) st) = (None, st1)
               \<or> extract_loop os d xs (warn (SkippingLargeFile (Name h)) st) = (None, st1)"
        using Cons.prems(1) TarEntry by (auto simp: not_skipped_def split: if_splits)
      then obtain w where run: "extract_loop os d xs (warn w st) = (None, st1)" by blast
      have "totalSize (warn w st) = word_of_int S" "fileCount (warn w st) = word_of_int N"
        using Cons.prems by (simp_all add: warn_def)
      from Cons.IH [OF run this(1) Cons.prems(3) this(2) Cons.prems(5,6)] False TarEntry
      show ?thesis by simp
    next
      case True
      define s where "s = sint (Size h)"
      have s_le: "s \<le> MaxFileSize" using True by (simp add: not_skipped_def s_def)
      define st' where "st' = st\<lparr>totalSize := totalSize st + Size h\<rparr>"
      define st'' where "st'' = st'\<lparr>fileCount := fileCount st' + 1\<rparr>"
      have tot: "totalSize st' = word_of_int (S + s)"
        using Cons.prems(2) by (simp add: st'_def s_def)
      have cnt: "fileCount st'' = word_of_int (N + 1)"
        using Cons.prems(4) by (simp add: st''_def st'_def)
      have no1: "\<not> sint (totalSize st') > MaxArchiveSize"
        using Cons.prems(1) TarEntry True
        by (auto simp: not_skipped_def Let_def st'_def split: if_splits)
      have no2: "\<not> sint (fileCount st'') > MaxFiles"
        using Cons.prems(1) TarEntry True no1
        by (auto simp: not_skipped_def Let_def st'_def st''_def split: if_splits)
      have S': "S + s \<le> MaxArchiveSize"
      proof (rule ccontr)
        assume "\<not> S + s \<le> MaxArchiveSize"
        then have gt: "S + s > MaxArchiveSize" by simp
        have up: "S + s < 2 ^ 63" using Cons.prems(3) s_le
          by (simp add: MaxArchiveSize_def MaxFileSize_def)
        have lo: "- (2 ^ 63) \<le> S + s" using gt by (simp add: MaxArchiveSize_def)
        have "sint (totalSize st') = S + s"
          unfolding tot by (rule sint_of_int_64 [OF lo up])
        with gt no1 show False by simp
      qed
      have N': "N + 1 \<le> MaxFiles"
      proof (rule ccontr)
        assume "\<not> N + 1 \<le> MaxFiles"
        then have gt: "N + 1 > MaxFiles" by simp
        have up: "N + 1 < 2 ^ 63" and lo: "- (2 ^ 63) \<le> N + 1" using Cons.prems(5,6)
          by (simp_all add: MaxFiles_def)
        have "sint (fileCount st'') = N + 1"
          unfolding cnt by (rule sint_of_int_64 [OF lo up])
        with gt no2 show False by simp
      qed
      obtain st3 where ap: "apply_entry os d h b st'' = (None, st3)"
        and run: "extract_loop os d xs st3 = (None, st1)"
        using Cons.prems(1) TarEntry True no1 no2
        by (auto simp: not_skipped_def Let_def st'_def st''_def
                 split: if_splits prod.splits option.splits)
      from apply_entry_counters [OF ap]
      have t3: "totalSize st3 = word_of_int (S + s)" and c3: "fileCount st3 = word_of_int (N + 1)"
        using tot cnt by (simp_all add: st''_def)
      have "0 \<le> N + 1" using Cons.prems(5) by simp
      from Cons.IH [OF run t3 S' c3 this N'] True TarEntry
      show ?thesis by (simp add: declared_sum_def s_def add.assoc)
    qed
  qed
qed

text \<open>
  C3. Let the items before an entry be processed without a fatal error, and let the
  entry pass the two checks that skip. If the declared sizes counted so far plus the
  entry's exceed \<open>MaxArchiveSize\<close>, or the entry is one more than \<open>MaxFiles\<close>, then
  \<open>Extract\<close> returns a fatal error, and the filesystem and the warnings are those left
  by the items before: neither the entry nor anything after it is applied.
\<close>

theorem ceilings_abort_extraction:
  assumes pre: "extract_loop os destDir pre
                  \<lparr>totalSize = 0, fileCount = 0, warnings = [], fs = fs0\<rparr> = (None, st1)"
      and reach: "not_skipped destDir header"
      and over: "declared_sum (counted destDir pre) + sint (Size header) > MaxArchiveSize
               \<or> int (length (counted destDir pre)) + 1 > MaxFiles"
  shows "\<exists>e st'. Extract os (TarStream (pre @ TarEntry header body # rest)) destDir fs0 = (Some e, st')
           \<and> (e = ArchiveTooLarge \<or> e = TooManyFiles)
           \<and> fs st' = fs st1 \<and> warnings st' = warnings st1"
proof -
  let ?S = "declared_sum (counted destDir pre)"
  let ?N = "int (length (counted destDir pre))"
  have inv: "totalSize st1 = word_of_int (0 + ?S) \<and> 0 + ?S \<le> MaxArchiveSize
           \<and> fileCount st1 = word_of_int (0 + ?N) \<and> 0 + ?N \<le> MaxFiles"
    by (rule extract_loop_invariant [OF pre]) (simp_all add: MaxArchiveSize_def MaxFiles_def)
  define s where "s = sint (Size header)"
  have s_le: "s \<le> MaxFileSize" using reach by (simp add: not_skipped_def s_def)
  define st' where "st' = st1\<lparr>totalSize := totalSize st1 + Size header\<rparr>"
  define st'' where "st'' = st'\<lparr>fileCount := fileCount st' + 1\<rparr>"
  have tot: "totalSize st' = word_of_int (?S + s)" using inv by (simp add: st'_def s_def)
  have cnt: "fileCount st'' = word_of_int (?N + 1)" using inv by (simp add: st''_def st'_def)
  have step: "extract_loop os destDir (TarEntry header body # rest) st1 =
       (if sint (totalSize st') > MaxArchiveSize then (Some ArchiveTooLarge, st')
        else if sint (fileCount st'') > MaxFiles then (Some TooManyFiles, st'')
        else (case apply_entry os destDir header body st'' of
                 (Some e, st3) \<Rightarrow> (Some e, st3)
               | (None, st3) \<Rightarrow> extract_loop os destDir rest st3))"
    using reach by (simp add: not_skipped_def Let_def st'_def st''_def)
  have whole: "Extract os (TarStream (pre @ TarEntry header body # rest)) destDir fs0
             = extract_loop os destDir (TarEntry header body # rest) st1"
    by (simp add: Extract_def extract_loop_append pre)
  show ?thesis
  proof (cases "sint (totalSize st') > MaxArchiveSize")
    case True
    with step whole show ?thesis by (simp add: st'_def)
  next
    case False
    have "\<not> ?S + s > MaxArchiveSize"
    proof
      assume gt: "?S + s > MaxArchiveSize"
      have up: "?S + s < 2 ^ 63" using inv s_le by (simp add: MaxArchiveSize_def MaxFileSize_def)
      have lo: "- (2 ^ 63) \<le> ?S + s" using gt by (simp add: MaxArchiveSize_def)
      have "sint (totalSize st') = ?S + s"
        unfolding tot by (rule sint_of_int_64 [OF lo up])
      with gt False show False by simp
    qed
    with over have gt: "?N + 1 > MaxFiles" by (simp add: s_def)
    have up: "?N + 1 < 2 ^ 63" and lo: "- (2 ^ 63) \<le> ?N + 1"
      using inv by (simp_all add: MaxFiles_def)
    have "sint (fileCount st'') = ?N + 1"
      unfolding cnt by (rule sint_of_int_64 [OF lo up])
    with gt have "sint (fileCount st'') > MaxFiles" by simp
    with step whole False show ?thesis by (simp add: st''_def st'_def)
  qed
qed

text \<open>
  An archive of eleven directory entries that each declare 100 MiB: the eleventh
  brings the total above 1 GiB, and the regular file after it is not written.
\<close>

lemma ten_directories_processed:
  "extract_loop recording_os ''/tmp/test''
     (replicate 10 (TarEntry \<lparr>Name = ''d'', Typeflag = TypeDir, Mode = 493, Size = 104857600,
                            Linkname = ''''\<rparr> []))
     \<lparr>totalSize = 0, fileCount = 0, warnings = [], fs = []\<rparr>
   = (None, \<lparr>totalSize = 1048576000, fileCount = 10, warnings = [],
             fs = replicate 10 (MkdirAll ''/tmp/test/d'' 493)\<rparr>)"
  by code_simp

lemma eleventh_directory_not_skipped:
  "not_skipped ''/tmp/test''
     \<lparr>Name = ''d'', Typeflag = TypeDir, Mode = 493, Size = 104857600, Linkname = ''''\<rparr>"
  by code_simp

lemma eleventh_directory_over:
  "declared_sum (counted ''/tmp/test''
     (replicate 10 (TarEntry \<lparr>Name = ''d'', Typeflag = TypeDir, Mode = 493, Size = 104857600,
                            Linkname = ''''\<rparr> [])))
   + sint (Size \<lparr>Name = ''d'', Typeflag = TypeDir, Mode = 493, Size = 104857600,
                  Linkname = ''''\<rparr>) > MaxArchiveSize"
  by code_simp

theorem ceilings_abort_extraction_witness:
  "\<exists>e st'. Extract recording_os
       (TarStream (replicate 10 (TarEntry \<lparr>Name = ''d'', Typeflag = TypeDir, Mode = 493,
                                         Size = 104857600, Linkname = ''''\<rparr> [])
          @ TarEntry \<lparr>Name = ''d'', Typeflag = TypeDir, Mode = 493, Size = 104857600,
                    Linkname = ''''\<rparr> []
          # [TarEntry \<lparr>Name = ''f'', Typeflag = TypeReg, Mode = 420, Size = 1,
                     Linkname = ''''\<rparr> ''x'']))
       ''/tmp/test'' [] = (Some e, st')
     \<and> (e = ArchiveTooLarge \<or> e = TooManyFiles)
     \<and> fs st' = replicate 10 (MkdirAll ''/tmp/test/d'' 493) \<and> warnings st' = []"
  using ceilings_abort_extraction
          [OF ten_directories_processed eleventh_directory_not_skipped
              disjI1 [OF eleventh_directory_over],
           of "[]" "[TarEntry \<lparr>Name = ''f'', Typeflag = TypeReg, Mode = 420, Size = 1,
                             Linkname = ''''\<rparr> ''x'']"]
  by simp

text \<open>
  C8. The claim is that the three ceilings are configuration that the caller passes
  to the extraction call and can override. \<open>Extract\<close> takes the archive and the
  destination only; the ceilings are constants. A call cannot raise the per-file
  ceiling: an entry that declares one byte more than 100 MiB is skipped.
\<close>

theorem ceilings_not_configurable_counterexample:
  "Extract recording_os
     (TarStream [TarEntry \<lparr>Name = ''big.bin'', Typeflag = TypeReg, Mode = 420,
                        Size = 104857601, Linkname = ''''\<rparr>
                   (replicate 104857601 (CHR ''a''))])
     ''/tmp/test'' []
   = (None, \<lparr>totalSize = 0, fileCount = 0, warnings = [SkippingLargeFile ''big.bin''],
             fs = []\<rparr>)"
proof -
  have "isPathSafe ''big.bin'' ''/tmp/test''" by code_simp
  then show ?thesis
    by (simp add: Extract_def MaxFileSize_def warn_def)
qed

text \<open>
  C8, as the code has it. The ceilings are the constants 100 MiB, 1 GiB and 10000 of
  the package, and every call of the loop applies them: whatever the filesystem, the
  destination, the state and the rest of the archive are, an entry with a safe path
  whose declared size is above 104857600 is skipped with a warning.
\<close>

theorem ceilings_are_constants:
  "MaxFileSize = 104857600 \<and> MaxArchiveSize = 1073741824 \<and> MaxFiles = 10000
   \<and> (isPathSafe (Name header) destDir \<and> sint (Size header) > 104857600 \<longrightarrow>
        extract_loop os destDir (TarEntry header body # rest) st
        = extract_loop os destDir rest (warn (SkippingLargeFile (Name header)) st))"
  by (simp add: MaxFileSize_def MaxArchiveSize_def MaxFiles_def)

theorem ceilings_are_constants_witness:
  "isPathSafe ''big.bin'' ''/tmp/test'' \<and> sint (104857601 :: int64) > 104857600
   \<and> extract_loop recording_os ''/tmp/test''
        [TarEntry \<lparr>Name = ''big.bin'', Typeflag = TypeReg, Mode = 420, Size = 104857601,
                 Linkname = ''''\<rparr> ''a'']
        \<lparr>totalSize = 0, fileCount = 0, warnings = [], fs = []\<rparr>
     = (None, \<lparr>totalSize = 0, fileCount = 0, warnings = [SkippingLargeFile ''big.bin''],
               fs = []\<rparr>)"
proof -
  have safe: "isPathSafe ''big.bin'' ''/tmp/test''" by code_simp
  have big: "sint (104857601 :: int64) > 104857600" by simp
  from ceilings_are_constants
         [of "\<lparr>Name = ''big.bin'', Typeflag = TypeReg, Mode = 420, Size = 104857601,
               Linkname = ''''\<rparr>" "''/tmp/test''" recording_os "''a''" "[]"
             "\<lparr>totalSize = 0, fileCount = 0, warnings = [], fs = []\<rparr>"]
       safe big
  show ?thesis by (simp add: warn_def)
qed

section \<open>Properties of creation\<close>

lemma create_visit_root:
  assumes "create_visit src c st = Inr st'" and "\<not> is_object c"
  shows "st' = st"
  using assms unfolding create_visit_def is_object_def
  by (auto split: walk_call.splits option.splits if_splits)

lemma create_visit_object:
  assumes "create_visit src c st = Inr st'" and "is_object c"
  shows "\<exists>h. written st' = written st @ [(h, if is_regular_object c then content_of src c else [])]
           \<and> FilesAdded (result st') = FilesAdded (result st) + 1
           \<and> TotalSize (result st') = TotalSize (result st)
                + (if is_regular_object c then of_nat (length (content_of src c)) else 0)"
proof -
  from assms(2) obtain path rel fm where c: "c = Visit path (Some rel) fm" and rel: "rel \<noteq> ''.''"
    by (auto simp: is_object_def split: walk_call.splits option.splits)
  show ?thesis
  proof (cases "IsRegular fm")
    case True
    with assms(1) c rel obtain bytes where "holds src path = File bytes"
      by (auto simp: create_visit_def Let_def split: option.splits if_splits disk_file.splits)
    with assms(1) c rel True show ?thesis
      by (auto simp: create_visit_def Let_def is_regular_object_def content_of_def bytes_of_def
               split: option.splits if_splits)
  next
    case False
    with assms(1) c rel show ?thesis
      by (auto simp: create_visit_def Let_def is_regular_object_def
               split: option.splits if_splits)
  qed
qed

lemma create_walk_counts:
  assumes "create_walk src cs st = Inr st'"
  shows "FilesAdded (result st') = FilesAdded (result st) + of_nat (length (filter is_object cs))
       \<and> TotalSize (result st') = TotalSize (result st)
            + of_nat (sum_list (map (\<lambda>c. length (content_of src c)) (filter is_regular_object cs)))
       \<and> map snd (written st') = map snd (written st)
            @ map (\<lambda>c. if is_regular_object c then content_of src c else []) (filter is_object cs)"
  using assms
proof (induction cs arbitrary: st)
  case Nil
  then show ?case by simp
next
  case (Cons c cs)
  from Cons.prems obtain st1 where v: "create_visit src c st = Inr st1"
    and w: "create_walk src cs st1 = Inr st'"
    by (auto split: sum.splits)
  note IH = Cons.IH [OF w]
  have reg_obj: "is_regular_object c \<Longrightarrow> is_object c"
    by (auto simp: is_regular_object_def is_object_def split: walk_call.splits option.splits)
  show ?case
  proof (cases "is_object c")
    case False
    with create_visit_root [OF v] reg_obj have "st1 = st" "\<not> is_regular_object c" by auto
    with IH False show ?thesis by simp
  next
    case True
    from create_visit_object [OF v True] obtain h where
      "written st1 = written st @ [(h, if is_regular_object c then content_of src c else [])]"
      "FilesAdded (result st1) = FilesAdded (result st) + 1"
      "TotalSize (result st1) = TotalSize (result st)
                + (if is_regular_object c then of_nat (length (content_of src c)) else 0)"
      by blast
    with IH True show ?thesis by (simp add: algebra_simps)
  qed
qed

lemma docs_created:
  "Create docs_source ''/tmp/docs.tar.xz''
   = Inr (\<lparr>FilesAdded = 2, TotalSize = 5\<rparr>,
          [(\<lparr>Name = ''docs'', Typeflag = TypeDir, Mode = 493, Size = 0, Linkname = []\<rparr>, []),
           (\<lparr>Name = ''docs/a.txt'', Typeflag = TypeReg, Mode = 420, Size = 5, Linkname = []\<rparr>,
            ''hello'')])"
  by code_simp

text \<open>
  C9. The claim is that \<open>files_added\<close> counts exactly the regular files. For the
  directory \<open>/src\<close> that holds the directory \<open>docs\<close> and the one regular file
  \<open>docs/a.txt\<close>, \<open>Create\<close> returns \<open>FilesAdded = 2\<close>: the increment is outside the
  branch for regular files.
\<close>

theorem files_added_counts_directories_counterexample:
  "Create docs_source ''/tmp/docs.tar.xz''
   = Inr (\<lparr>FilesAdded = 2, TotalSize = 5\<rparr>,
          [(\<lparr>Name = ''docs'', Typeflag = TypeDir, Mode = 493, Size = 0, Linkname = []\<rparr>, []),
           (\<lparr>Name = ''docs/a.txt'', Typeflag = TypeReg, Mode = 420, Size = 5, Linkname = []\<rparr>,
            ''hello'')])
   \<and> length (filter is_regular_object (walked docs_source)) = 1"
  by code_simp

text \<open>
  C9, as the code has it. After a successful \<open>Create\<close>, \<open>TotalSize\<close> is the number of
  bytes of the regular files under the source directory, content follows the headers
  of regular files only, and \<open>FilesAdded\<close> is the number of headers written: one for
  every object under the source directory other than the root, of any kind.
\<close>

theorem create_counters:
  assumes "Create src archivePath = Inr (res, entries)"
  shows "TotalSize res
           = of_nat (sum_list (map (\<lambda>c. length (content_of src c))
                                   (filter is_regular_object (walked src))))
       \<and> FilesAdded res = of_nat (length (filter is_object (walked src)))
       \<and> length entries = length (filter is_object (walked src))
       \<and> map snd entries
           = map (\<lambda>c. if is_regular_object c then content_of src c else [])
                 (filter is_object (walked src))"
proof -
  from assms obtain st where
    w: "create_walk src (walked src)
          \<lparr>written = [], result = \<lparr>FilesAdded = 0, TotalSize = 0\<rparr>\<rparr> = Inr st"
    and r: "res = result st" "entries = written st"
    by (auto simp: Create_def split: if_splits sum.splits)
  from create_walk_counts [OF w] r
  have main: "TotalSize res
           = of_nat (sum_list (map (\<lambda>c. length (content_of src c))
                                   (filter is_regular_object (walked src))))
       \<and> FilesAdded res = of_nat (length (filter is_object (walked src)))
       \<and> map snd entries
           = map (\<lambda>c. if is_regular_object c then content_of src c else [])
                 (filter is_object (walked src))"
    by simp
  from main have "map snd entries
           = map (\<lambda>c. if is_regular_object c then content_of src c else [])
                 (filter is_object (walked src))"
    by blast
  then have "length (map snd entries)
           = length (map (\<lambda>c. if is_regular_object c then content_of src c else [])
                 (filter is_object (walked src)))"
    by (rule arg_cong)
  then have "length entries = length (filter is_object (walked src))"
    by simp
  with main show ?thesis by blast
qed

theorem create_counters_witness:
  "TotalSize \<lparr>FilesAdded = 2, TotalSize = 5\<rparr>
     = of_nat (sum_list (map (\<lambda>c. length (content_of docs_source c))
                             (filter is_regular_object (walked docs_source))))
   \<and> FilesAdded \<lparr>FilesAdded = 2, TotalSize = 5\<rparr>
     = of_nat (length (filter is_object (walked docs_source)))
   \<and> length (filter is_object (walked docs_source)) = 2"
  using create_counters [OF docs_created] by simp

section \<open>Properties of the digest\<close>

lemma simpleUpdate_append:
  "simpleUpdate (simpleUpdate crc tab a) tab b = simpleUpdate crc tab (a @ b)"
  by (simp add: simpleUpdate_def)

lemma simpleUpdate_Nil: "simpleUpdate crc tab [] = crc"
  by (simp add: simpleUpdate_def)

text \<open>
  Reading a file in 64 KiB pieces gives the digest of its bytes taken at once.
\<close>

lemma read_loop_all:
  "read_loop crc remaining False = Inr (simpleUpdate crc CRC32Table remaining)"
proof (induction crc remaining False rule: read_loop.induct)
  case (1 crc remaining)
  show ?case
  proof (cases "remaining = []")
    case True
    then show ?thesis by (simp add: read_loop.simps [of crc "[]"] simpleUpdate_Nil)
  next
    case False
    let ?buf = "take (64 * 1024) remaining"
    have nonempty: "length ?buf > 0" using False by simp
    have "read_loop crc remaining False
          = read_loop (simpleUpdate crc CRC32Table ?buf) (drop (64 * 1024) remaining) False"
      using False nonempty by (subst read_loop.simps) (simp add: Let_def)
    also have "\<dots> = Inr (simpleUpdate (simpleUpdate crc CRC32Table ?buf) CRC32Table
                          (drop (64 * 1024) remaining))"
      using "1" [OF refl refl False] nonempty by simp
    also have "\<dots> = Inr (simpleUpdate crc CRC32Table remaining)"
      by (simp add: simpleUpdate_append)
    finally show ?thesis .
  qed
qed

lemma read_loop_fails: "\<exists>e. read_loop crc remaining True = Inl e"
proof (induction crc remaining True rule: read_loop.induct)
  case (1 crc remaining)
  show ?case
  proof (cases "remaining = []")
    case True
    then show ?thesis by (simp add: read_loop.simps [of crc "[]"])
  next
    case False
    then have "read_loop crc remaining True
          = read_loop (simpleUpdate crc CRC32Table (take (64 * 1024) remaining))
              (drop (64 * 1024) remaining) True"
      by (subst read_loop.simps) (simp add: Let_def)
    with "1" [OF refl refl False] False show ?thesis by simp
  qed
qed

lemma CalculateCRC32_File:
  "disk filePath = File bytes \<Longrightarrow> CalculateCRC32 disk filePath = Inr (CalculateCRC32Bytes bytes)"
  by (simp add: CalculateCRC32_def read_loop_all CalculateCRC32Bytes_def crc32_Checksum_def)

lemma CalculateCRC32_Inr:
  "CalculateCRC32 disk filePath = Inr c \<longleftrightarrow>
     (\<exists>bytes. disk filePath = File bytes \<and> c = CalculateCRC32Bytes bytes)"
proof (cases "disk filePath")
  case NoFile
  then show ?thesis by (simp add: CalculateCRC32_def)
next
  case (File bytes)
  then show ?thesis using CalculateCRC32_File [of disk filePath bytes] by auto
next
  case (FailingFile bytes)
  then show ?thesis using read_loop_fails [of 0 bytes] by (auto simp: CalculateCRC32_def)
qed

text \<open>Evaluation of the digest on a literal, by the table-driven steps.\<close>

lemma funpow8: "(f ^^ 8) x = f (f (f (f (f (f (f (f x)))))))"
  by (simp add: eval_nat_numeral)

lemma not_zero_32: "NOT (0 :: 32 word) = 0xFFFFFFFF"
  by simp

lemma Checksum_from_ones:
  "CalculateCRC32Bytes p = NOT (foldl (update_byte CRC32Table) 0xFFFFFFFF p)"
  unfolding CalculateCRC32Bytes_def crc32_Checksum_def simpleUpdate_def not_zero_32
  by (rule refl)

lemmas crc_eval = Checksum_from_ones update_byte_def
  CRC32Table_def MakeTable_def funpow8 table_step_def IEEE_def

lemma crc_hello: "CalculateCRC32Bytes ''hello'' = 0x3610a686"
  by (simp add: crc_eval)

lemma crc_hello_world: "CalculateCRC32Bytes ''hello world'' = 0x0d4a1185"
  by (simp add: crc_eval)

lemma crc_empty: "CalculateCRC32Bytes [] = 0"
  by (simp add: CalculateCRC32Bytes_def crc32_Checksum_def simpleUpdate_def)

text \<open>
  C4. The digest of a file is the digest of its bytes: two files with the same bytes,
  at any paths of any filesystems, have the same checksum. The digest of the empty
  input is \<open>0\<close>, that of \<open>hello\<close> is \<open>0x3610a686\<close> and that of \<open>hello world\<close> is
  \<open>0x0d4a1185\<close>.
\<close>

theorem digest_function_of_bytes:
  "(disk1 path1 = File bytes \<and> disk2 path2 = File bytes \<longrightarrow>
      CalculateCRC32 disk1 path1 = Inr (CalculateCRC32Bytes bytes)
      \<and> CalculateCRC32 disk2 path2 = CalculateCRC32 disk1 path1)
   \<and> CalculateCRC32Bytes [] = 0
   \<and> CalculateCRC32Bytes ''hello'' = 0x3610a686
   \<and> CalculateCRC32Bytes ''hello world'' = 0x0d4a1185"
proof -
  have same: "disk1 path1 = File bytes \<and> disk2 path2 = File bytes \<longrightarrow>
      CalculateCRC32 disk1 path1 = Inr (CalculateCRC32Bytes bytes)
      \<and> CalculateCRC32 disk2 path2 = CalculateCRC32 disk1 path1"
  proof
    assume a: "disk1 path1 = File bytes \<and> disk2 path2 = File bytes"
    from a have "CalculateCRC32 disk1 path1 = Inr (CalculateCRC32Bytes bytes)"
      by (intro CalculateCRC32_File) simp
    moreover from a have "CalculateCRC32 disk2 path2 = Inr (CalculateCRC32Bytes bytes)"
      by (intro CalculateCRC32_File) simp
    ultimately show "CalculateCRC32 disk1 path1 = Inr (CalculateCRC32Bytes bytes)
      \<and> CalculateCRC32 disk2 path2 = CalculateCRC32 disk1 path1" by simp
  qed
  from same crc_empty crc_hello crc_hello_world show ?thesis by blast
qed

theorem digest_function_of_bytes_witness:
  "CalculateCRC32 (\<lambda>p. if p = ''/tmp/a/one.txt'' then File ''hello'' else NoFile) ''/tmp/a/one.txt''
     = Inr 0x3610a686
   \<and> CalculateCRC32 (\<lambda>p. if p = ''/srv/other.bin'' then File ''hello'' else NoFile) ''/srv/other.bin''
     = CalculateCRC32 (\<lambda>p. if p = ''/tmp/a/one.txt'' then File ''hello'' else NoFile) ''/tmp/a/one.txt''"
proof -
  define d1 :: filesystem
    where "d1 = (\<lambda>p. if p = ''/tmp/a/one.txt'' then File ''hello'' else NoFile)"
  define d2 :: filesystem
    where "d2 = (\<lambda>p. if p = ''/srv/other.bin'' then File ''hello'' else NoFile)"
  have h: "d1 ''/tmp/a/one.txt'' = File ''hello'' \<and> d2 ''/srv/other.bin'' = File ''hello''"
    by (simp add: d1_def d2_def)
  have all: "(d1 ''/tmp/a/one.txt'' = File ''hello'' \<and> d2 ''/srv/other.bin'' = File ''hello'' \<longrightarrow>
      CalculateCRC32 d1 ''/tmp/a/one.txt'' = Inr (CalculateCRC32Bytes ''hello'')
      \<and> CalculateCRC32 d2 ''/srv/other.bin'' = CalculateCRC32 d1 ''/tmp/a/one.txt'')
    \<and> CalculateCRC32Bytes [] = 0
    \<and> CalculateCRC32Bytes ''hello'' = 0x3610a686
    \<and> CalculateCRC32Bytes ''hello world'' = 0x0d4a1185"
    by (rule digest_function_of_bytes)
  from all h have "CalculateCRC32 d1 ''/tmp/a/one.txt'' = Inr (CalculateCRC32Bytes ''hello'')"
    and "CalculateCRC32 d2 ''/srv/other.bin'' = CalculateCRC32 d1 ''/tmp/a/one.txt''"
    and "CalculateCRC32Bytes ''hello'' = 0x3610a686"
    by blast+
  then show ?thesis unfolding d1_def d2_def by (simp only:)
qed

section \<open>Properties of the manifest\<close>





























text \<open>What a successful walk of \<open>CreateCRC32Sums\<close> has collected.\<close>

lemma sums_visit_skip:
  assumes "sums_visit src c acc = Inr entries" and "\<not> is_recorded c"
  shows "entries = acc"
  using assms unfolding sums_visit_def is_recorded_def
  by (auto split: walk_call.splits if_splits)

lemma sums_visit_record:
  assumes "sums_visit src c acc = Inr entries" and "is_recorded c"
  shows "entries = acc @ [\<lparr>Checksum = CalculateCRC32Bytes (content_of src c), Path = rel_of c\<rparr>]
       \<and> (\<exists>path fm bytes. c = Visit path (Some (rel_of c)) fm \<and> \<not> IsDir fm
              \<and> holds src path = File bytes)"
proof -
  from assms(2) obtain path rel fm where c: "c = Visit path rel fm" and nd: "\<not> IsDir fm"
    by (auto simp: is_recorded_def split: walk_call.splits)
  from assms(1) c nd obtain r where r: "rel = Some r"
    by (auto simp: sums_visit_def split: option.splits)
  from assms(1) c nd r obtain checksum where
    crc: "CalculateCRC32 (holds src) path = Inr checksum"
    and e: "entries = acc @ [\<lparr>Checksum = checksum, Path = r\<rparr>]"
    by (auto simp: sums_visit_def split: sum.splits)
  from crc obtain bytes where b: "holds src path = File bytes" "checksum = CalculateCRC32Bytes bytes"
    by (auto simp: CalculateCRC32_Inr)
  with c r e nd show ?thesis
    by (simp add: content_of_def bytes_of_def rel_of_def)
qed

lemma sums_walk_entries:
  assumes "sums_walk src cs acc = Inr entries"
  shows "entries = acc @ map (\<lambda>c. \<lparr>Checksum = CalculateCRC32Bytes (content_of src c), Path = rel_of c\<rparr>)
                            (filter is_recorded cs)"
  using assms
proof (induction cs arbitrary: acc)
  case Nil
  then show ?case by simp
next
  case (Cons c cs)
  from Cons.prems obtain acc1 where v: "sums_visit src c acc = Inr acc1"
    and w: "sums_walk src cs acc1 = Inr entries"
    by (auto split: sum.splits)
  show ?case
  proof (cases "is_recorded c")
    case True
    with sums_visit_record [OF v] Cons.IH [OF w] show ?thesis by simp
  next
    case False
    with sums_visit_skip [OF v] Cons.IH [OF w] show ?thesis by simp
  qed
qed

lemma sums_walk_readable:
  assumes "sums_walk src cs acc = Inr entries" and "c \<in> set cs" and "is_recorded c"
  shows "\<exists>path fm bytes. c = Visit path (Some (rel_of c)) fm \<and> \<not> IsDir fm \<and> holds src path = File bytes"
  using assms
proof (induction cs arbitrary: acc)
  case Nil
  then show ?case by simp
next
  case (Cons d cs)
  from Cons.prems(1) obtain acc1 where v: "sums_visit src d acc = Inr acc1"
    and w: "sums_walk src cs acc1 = Inr entries"
    by (auto split: sum.splits)
  show ?case
  proof (cases "c = d")
    case True
    with sums_visit_record [OF v] Cons.prems(3) show ?thesis by blast
  next
    case False
    with Cons.prems(2) have "c \<in> set cs" by simp
    from Cons.IH [OF w this Cons.prems(3)] show ?thesis .
  qed
qed

text \<open>Evaluation of file modes and of the example directories.\<close>

lemmas mode_defs = IsRegular_def IsDir_def Perm_def ModePerm_def ModeType_def ModeDir_def
  ModeSymlink_def ModeNamedPipe_def ModeSocket_def ModeDevice_def ModeCharDevice_def
  ModeIrregular_def ModeSetuid_def ModeSetgid_def ModeSticky_def

lemma lib_digests:
  "CalculateCRC32 lib_holds ''/pkg/lib.so'' = Inr 0x3610a686"
  "CalculateCRC32 lib_holds ''/pkg/lib.so.1'' = Inr 0x3610a686"
  using CalculateCRC32_File [of lib_holds "''/pkg/lib.so''" "''hello''"]
        CalculateCRC32_File [of lib_holds "''/pkg/lib.so.1''" "''hello''"]
  by (simp_all add: lib_holds_def crc_hello)

lemma lib_sums:
  "CreateCRC32Sums lib_source None ''/tmp/crc32sums''
   = (Inr [\<lparr>Checksum = 0x3610a686, Path = ''lib.so''\<rparr>,
           \<lparr>Checksum = 0x3610a686, Path = ''lib.so.1''\<rparr>],
      lib_holds(''/tmp/crc32sums'' :=
        File (concat (map format_line [\<lparr>Checksum = 0x3610a686, Path = ''lib.so''\<rparr>,
                                       \<lparr>Checksum = 0x3610a686, Path = ''lib.so.1''\<rparr>]))))"
  by (simp add: CreateCRC32Sums_def lib_source_def sums_visit_def lib_digests mode_defs
        accept_all_def)

text \<open>
  C7. The claim is that only regular files are recorded. In the directory \<open>/pkg\<close>
  the symbolic link \<open>lib.so\<close> is not a regular file, and \<open>CreateCRC32Sums\<close> records it
  with the digest of the file it leads to: the walk function skips directories and
  nothing else.
\<close>

theorem symlink_recorded_counterexample:
  "fst (CreateCRC32Sums lib_source None ''/tmp/crc32sums'')
     = Inr [\<lparr>Checksum = 0x3610a686, Path = ''lib.so''\<rparr>,
            \<lparr>Checksum = 0x3610a686, Path = ''lib.so.1''\<rparr>]
   \<and> walked lib_source ! 1 = Visit ''/pkg/lib.so'' (Some ''lib.so'') (ModeSymlink OR 511)
   \<and> \<not> IsRegular (ModeSymlink OR 511)"
  by (simp add: lib_sums) (simp add: lib_source_def mode_defs)

lemma CreateCRC32Sums_success:
  assumes "CreateCRC32Sums src write_fails_at outputPath = (Inr entries, disk')"
  shows "entries = map (\<lambda>c. \<lparr>Checksum = CalculateCRC32Bytes (content_of src c), Path = rel_of c\<rparr>)
                       (filter is_recorded (walked src))
       \<and> disk' = (holds src)(outputPath := File (concat (map format_line entries)))
       \<and> (\<forall>c \<in> set (filter is_recorded (walked src)).
            \<exists>path fm bytes. c = Visit path (Some (rel_of c)) fm \<and> \<not> IsDir fm
               \<and> holds src path = File bytes)"
proof -
  from assms obtain es where w: "sums_walk src (walked src) [] = Inr es"
    by (auto simp: CreateCRC32Sums_def split: sum.splits)
  with assms have e: "entries = es"
    and d: "disk' = (holds src)(outputPath := File (concat (map format_line entries)))"
    by (auto simp: CreateCRC32Sums_def split: if_splits option.splits)
  from sums_walk_entries [OF w] e
  have "entries = map (\<lambda>c. \<lparr>Checksum = CalculateCRC32Bytes (content_of src c), Path = rel_of c\<rparr>)
                       (filter is_recorded (walked src))"
    by simp
  moreover have "\<forall>c \<in> set (filter is_recorded (walked src)).
            \<exists>path fm bytes. c = Visit path (Some (rel_of c)) fm \<and> \<not> IsDir fm
               \<and> holds src path = File bytes"
    using sums_walk_readable [OF w] by auto
  ultimately show ?thesis using d by blast
qed



text \<open>
  C7, as the code has it. A successful \<open>CreateCRC32Sums\<close> returns one record for
  every walked object that is not a directory, in walk order, and none for a
  directory; each recorded object could be opened and read, its record carries the
  digest of its bytes and the path that \<open>filepath.Rel\<close> gave relative to the walked
  directory; and the manifest holds one line per record in the same order.
\<close>

theorem sums_records_non_directories:
  assumes "CreateCRC32Sums src write_fails_at outputPath = (Inr entries, disk')"
  shows "entries = map (\<lambda>c. \<lparr>Checksum = CalculateCRC32Bytes (content_of src c), Path = rel_of c\<rparr>)
                       (filter is_recorded (walked src))
       \<and> disk' = (holds src)(outputPath := File (concat (map format_line entries)))
       \<and> (\<forall>c \<in> set (filter is_recorded (walked src)).
            \<exists>path fm bytes. c = Visit path (Some (rel_of c)) fm \<and> \<not> IsDir fm
               \<and> holds src path = File bytes)"
  using assms by (rule CreateCRC32Sums_success)

theorem sums_records_non_directories_witness:
  "[\<lparr>Checksum = 0x3610a686, Path = ''lib.so''\<rparr>, \<lparr>Checksum = 0x3610a686, Path = ''lib.so.1''\<rparr>]
     = map (\<lambda>c. \<lparr>Checksum = CalculateCRC32Bytes (content_of lib_source c), Path = rel_of c\<rparr>)
           (filter is_recorded (walked lib_source))
   \<and> filter is_recorded (walked lib_source)
     = [Visit ''/pkg/lib.so'' (Some ''lib.so'') (ModeSymlink OR 511),
        Visit ''/pkg/lib.so.1'' (Some ''lib.so.1'') 420]"
proof -
  have "filter is_recorded (walked lib_source)
     = [Visit ''/pkg/lib.so'' (Some ''lib.so'') (ModeSymlink OR 511),
        Visit ''/pkg/lib.so.1'' (Some ''lib.so.1'') 420]"
    by (simp add: lib_source_def is_recorded_def mode_defs)
  with sums_records_non_directories [OF lib_sums] show ?thesis by blast
qed






























section \<open>Properties of verification\<close>

lemma scan_junk: "scan_lines (''3610a686zz  a.txt'' @ [CHR 0x0A]) = ([''3610a686zz  a.txt''], False)"
  by (simp add: scan_lines.simps MaxScanTokenSize_def dropCR_def)

lemma sscanf_junk: "Sscanf_x ''3610a686zz'' = Some 0x3610a686"
  by (simp add: Sscanf_x_def SkipSpace.simps space_len_def is_hex_digit_def hex_value_def
        digit_val_def Let_def)

lemma join_a: "Join [''/d'', ''a.txt''] = ''/d/a.txt''"
  by code_simp

text \<open>
  C6. The claim is that a line whose checksum field is not valid hexadecimal is
  classified as failed. \<open>Sscanf\<close> with \<open>%x\<close> reads the hexadecimal digits at the head of
  the field and ignores what follows them: the field \<open>3610a686zz\<close> is read as
  \<open>0x3610a686\<close>, the digest of \<open>hello\<close>, and the file \<open>a.txt\<close> that holds \<open>hello\<close> is
  classified as passed.
\<close>

theorem junk_checksum_field_passes:
  "VerifyCRC32Sums junk_disk ''/d/crc32sums'' ''/d'' = ([''a.txt''], [], None)
   \<and> junk_disk ''/d/crc32sums'' = File (''3610a686zz  a.txt'' @ [CHR 0x0A])
   \<and> \<not> list_all is_hex_digit ''3610a686zz''"
proof -
  have crc: "CalculateCRC32 junk_disk ''/d/a.txt'' = Inr 0x3610a686"
    using CalculateCRC32_File [of junk_disk "''/d/a.txt''" "''hello''"]
    by (simp add: junk_disk_def crc_hello)
  have m: "junk_disk ''/d/crc32sums'' = File (''3610a686zz  a.txt'' @ [CHR 0x0A])"
    by (simp add: junk_disk_def)
  have split: "SplitN2 ''3610a686zz  a.txt'' ''  '' = [''3610a686zz'', ''a.txt'']"
    by (simp add: SplitN2_def)
  have line: "verify_line junk_disk ''/d'' ''3610a686zz  a.txt'' ([], []) = ([''a.txt''], [])"
    unfolding verify_line_def by (simp add: split sscanf_junk join_a crc Let_def del: Join.simps)
  have v: "VerifyCRC32Sums junk_disk ''/d/crc32sums'' ''/d'' = ([''a.txt''], [], None)"
    unfolding VerifyCRC32Sums_def m
    by (simp only: disk_file.case scan_junk prod.case foldl.simps line if_False)
  have "\<not> list_all is_hex_digit ''3610a686zz''"
    by (simp add: is_hex_digit_def)
  with v m show ?thesis by blast
qed

text \<open>
  The other parts of the classification: a line without the separator is skipped, a
  field that \<open>Sscanf\<close> rejects or a digest that cannot be recomputed or differs puts
  the path in \<open>failed\<close>, and the error returned is that of opening or scanning the
  manifest, whatever \<open>failed\<close> holds.
\<close>

lemma verify_line_no_separator:
  "split_first line ''  '' = None \<Longrightarrow> verify_line disk baseDir line acc = acc"
  by (cases acc) (simp add: verify_line_def SplitN2_def)

lemma verify_line_unparsed:
  assumes "split_first line ''  '' = Some (field, path)" and "Sscanf_x field = None"
  shows "verify_line disk baseDir line (passed, failed) = (passed, failed @ [path])"
proof -
  have "line \<noteq> []" using assms(1) by (cases line) auto
  with assms show ?thesis by (simp add: verify_line_def SplitN2_def)
qed

lemma verify_line_mismatch:
  assumes "split_first line ''  '' = Some (field, path)" and "Sscanf_x field = Some expected"
      and "CalculateCRC32 disk (Join [baseDir, path]) \<noteq> Inr expected"
  shows "verify_line disk baseDir line (passed, failed) = (passed, failed @ [path])"
proof -
  have "line \<noteq> []" using assms(1) by (cases line) auto
  with assms show ?thesis
    by (auto simp: verify_line_def SplitN2_def Let_def split: sum.splits simp del: Join.simps)
qed

lemma verify_error_is_scanner_error:
  "snd (snd (VerifyCRC32Sums disk sumsFile baseDir)) =
     (case disk sumsFile of
        NoFile \<Rightarrow> Some FailedToOpenSums
      | File text \<Rightarrow> (if snd (scan_lines text) then Some ScannerError else None)
      | FailingFile text \<Rightarrow> Some ScannerError)"
  by (simp add: VerifyCRC32Sums_def split: disk_file.splits prod.splits)

section \<open>Properties of the round trip of the archive\<close>

lemma FileInfoHeader_fields:
  assumes "FileInfoHeader fm sz link = Some h"
  shows "Name h = [] \<and> Mode h = tar_mode fm
       \<and> (if IsRegular fm then Typeflag h = TypeReg \<and> Size h = sz \<and> Linkname h = []
           else Size h = 0
             \<and> (if IsDir fm then Typeflag h = TypeDir \<and> Linkname h = []
                 else if fm AND ModeSymlink \<noteq> 0 then Typeflag h = TypeSymlink \<and> Linkname h = link
                 else Typeflag h \<in> {TypeChar, TypeBlock, TypeFifo} \<and> Linkname h = []))"
proof -
  define h0 :: Header where
    "h0 = \<lparr>Name = [], Typeflag = TypeReg, Mode = ucast (Perm fm), Size = 0, Linkname = []\<rparr>"
  define typed where "typed =
            (if IsRegular fm then Some (h0\<lparr>Typeflag := TypeReg, Size := sz\<rparr>)
             else if IsDir fm then Some (h0\<lparr>Typeflag := TypeDir\<rparr>)
             else if fm AND ModeSymlink \<noteq> 0 then Some (h0\<lparr>Typeflag := TypeSymlink, Linkname := link\<rparr>)
             else if fm AND ModeDevice \<noteq> 0 then
               (if fm AND ModeCharDevice \<noteq> 0 then Some (h0\<lparr>Typeflag := TypeChar\<rparr>)
                else Some (h0\<lparr>Typeflag := TypeBlock\<rparr>))
             else if fm AND ModeNamedPipe \<noteq> 0 then Some (h0\<lparr>Typeflag := TypeFifo\<rparr>)
             else None)"
  from assms obtain h1 where t: "typed = Some h1"
    and h: "h = h1\<lparr>Mode := Mode h1
                 OR (if fm AND ModeSetuid \<noteq> 0 then c_ISUID else 0)
                 OR (if fm AND ModeSetgid \<noteq> 0 then c_ISGID else 0)
                 OR (if fm AND ModeSticky \<noteq> 0 then c_ISVTX else 0)\<rparr>"
    unfolding FileInfoHeader_def h0_def [symmetric] Let_def typed_def [symmetric]
    by (cases typed) (auto simp: Let_def or.assoc)
  from t have h1: "Name h1 = [] \<and> Mode h1 = ucast (Perm fm)
       \<and> (if IsRegular fm then Typeflag h1 = TypeReg \<and> Size h1 = sz \<and> Linkname h1 = []
           else Size h1 = 0
             \<and> (if IsDir fm then Typeflag h1 = TypeDir \<and> Linkname h1 = []
                 else if fm AND ModeSymlink \<noteq> 0 then Typeflag h1 = TypeSymlink \<and> Linkname h1 = link
                 else Typeflag h1 \<in> {TypeChar, TypeBlock, TypeFifo} \<and> Linkname h1 = []))"
    unfolding typed_def h0_def by (auto split: if_splits)
  with h show ?thesis by (auto simp: tar_mode_def or.assoc split: if_splits)
qed

lemma create_visit_packs:
  assumes "create_visit src c st = Inr st'" and "is_object c"
  shows "\<exists>e. written st' = written st @ [e] \<and> packs src c e"
proof -
  from assms(2) obtain path rel fm where c: "c = Visit path (Some rel) fm" and rel: "rel \<noteq> ''.''"
    by (auto simp: is_object_def split: walk_call.splits option.splits)
  from assms(1) c rel obtain h0 where fih: "FileInfoHeader fm (file_size (holds src path)) [] = Some h0"
    by (auto simp: create_visit_def split: option.splits)
  note f = FileInfoHeader_fields [OF fih]
  show ?thesis
  proof (cases "IsRegular fm")
    case True
    have "ModeType AND ModeSymlink = ModeSymlink" by (simp add: mode_defs)
    then have "fm AND ModeSymlink = (fm AND ModeType) AND ModeSymlink"
      by (simp add: and.assoc)
    with True have nosym: "fm AND ModeSymlink = 0" by (simp add: IsRegular_def)
    with assms(1) c rel fih True obtain bytes where b: "holds src path = File bytes"
      by (auto simp: create_visit_def Let_def split: if_splits disk_file.splits)
    with assms(1) c rel fih True nosym
    have w: "written st' = written st @ [(h0\<lparr>Name := rel\<rparr>, bytes)]"
      by (auto simp: create_visit_def Let_def split: if_splits)
    have "packs src c (h0\<lparr>Name := rel\<rparr>, bytes)"
      using f True b c rel by (simp add: packs_def file_size_def)
    with w show ?thesis by blast
  next
    case False
    show ?thesis
    proof (cases "fm AND ModeSymlink \<noteq> 0")
      case True
      with assms(1) c rel fih False obtain link where l: "readlink src path = Some link"
        and w: "written st' = written st @ [(h0\<lparr>Name := rel, Linkname := link\<rparr>, [])]"
        by (auto simp: create_visit_def Let_def split: if_splits option.splits)
      have "packs src c (h0\<lparr>Name := rel, Linkname := link\<rparr>, [])"
        using f False True l c rel by (auto simp: packs_def split: if_splits)
      with w show ?thesis by blast
    next
      case nosym: False
      with assms(1) c rel fih False
      have w: "written st' = written st @ [(h0\<lparr>Name := rel\<rparr>, [])]"
        by (auto simp: create_visit_def Let_def split: if_splits)
      have "packs src c (h0\<lparr>Name := rel\<rparr>, [])"
        using f False nosym c rel by (auto simp: packs_def split: if_splits)
      with w show ?thesis by blast
    qed
  qed
qed

lemma create_walk_packs:
  assumes "create_walk src cs st = Inr st'"
  shows "\<exists>new. written st' = written st @ new \<and> list_all2 (packs src) (filter is_object cs) new"
  using assms
proof (induction cs arbitrary: st)
  case Nil
  then show ?case by simp
next
  case (Cons c cs)
  from Cons.prems obtain st1 where v: "create_visit src c st = Inr st1"
    and w: "create_walk src cs st1 = Inr st'"
    by (auto split: sum.splits)
  from Cons.IH [OF w] obtain new where
    n: "written st' = written st1 @ new" "list_all2 (packs src) (filter is_object cs) new"
    by blast
  show ?case
  proof (cases "is_object c")
    case False
    with create_visit_root [OF v] n show ?thesis by auto
  next
    case True
    from create_visit_packs [OF v True] obtain e where
      "written st1 = written st @ [e]" "packs src c e" by blast
    with n True have "written st' = written st @ (e # new)"
      and "list_all2 (packs src) (filter is_object (c # cs)) (e # new)"
      by simp_all
    then show ?thesis by blast
  qed
qed

lemma call_recording: "call recording_os c st = (Ok, st\<lparr>fs := fs st @ [c]\<rparr>)"
  by (simp add: call_def recording_os_def)

lemmas type_defs = TypeReg_def TypeDir_def TypeSymlink_def TypeLink_def TypeChar_def
  TypeBlock_def TypeFifo_def

lemma apply_entry_packed:
  assumes "packs src c (h, body)"
  shows "apply_entry recording_os destDir h body st
         = (None, st\<lparr>fs := fs st @ expected_calls src destDir c\<rparr>)"
proof -
  from assms obtain path fm where c: "c = Visit path (Some (Name h)) fm"
    and nm: "Name h \<noteq> ''.''" and md: "Mode h = tar_mode fm"
    by (auto simp: packs_def split: walk_call.splits)
  show ?thesis
  proof (cases "IsRegular fm")
    case True
    with assms c have "Typeflag h = TypeReg" "holds src path = File body"
      by (simp_all add: packs_def)
    with True c nm md show ?thesis
      by (simp add: apply_entry_def expected_calls_def call_recording type_defs bytes_of_def
            Let_def del: Join.simps)
  next
    case False
    show ?thesis
    proof (cases "IsDir fm")
      case True
      with assms c False have "Typeflag h = TypeDir" by (simp add: packs_def)
      with True False c nm md show ?thesis
        by (simp add: apply_entry_def expected_calls_def call_recording type_defs
              Let_def del: Join.simps)
    next
      case nodir: False
      show ?thesis
      proof (cases "fm AND ModeSymlink \<noteq> 0")
        case True
        with assms c False nodir have "Typeflag h = TypeSymlink"
          "readlink src path = Some (Linkname h)"
          by (simp_all add: packs_def)
        with True False nodir c nm md show ?thesis
          by (simp add: apply_entry_def expected_calls_def call_recording type_defs
                Let_def del: Join.simps)
      next
        case nosym: False
        with assms c False nodir have "Typeflag h \<in> {TypeChar, TypeBlock, TypeFifo}"
          by (simp add: packs_def)
        with nosym False nodir c nm md show ?thesis
          by (auto simp: apply_entry_def expected_calls_def type_defs Let_def simp del: Join.simps)
      qed
    qed
  qed
qed

lemma sint_of_nat_64: "n < 2 ^ 63 \<Longrightarrow> sint (of_nat n :: 64 word) = int n"
proof -
  assume "n < 2 ^ 63"
  then have "int n < 2 ^ 63" by (metis of_nat_less_iff of_nat_numeral of_nat_power)
  moreover have "- (2 ^ 63) \<le> int n" by simp
  ultimately have "sint (word_of_int (int n) :: 64 word) = int n" by (intro sint_of_int_64)
  then show ?thesis by simp
qed

lemma extract_step_packed:
  assumes p: "packs src c (h, body)"
      and safe: "isPathSafe (Name h) destDir"
      and small: "length body \<le> 104857600"
      and tot: "totalSize st = of_nat T" "T + length body \<le> 1073741824"
      and cnt: "fileCount st = of_nat N" "N + 1 \<le> 10000"
  shows "extract_loop recording_os destDir (TarEntry h body # rest) st
         = extract_loop recording_os destDir rest
             (st\<lparr>totalSize := of_nat (T + length body), fileCount := of_nat (N + 1),
                 fs := fs st @ expected_calls src destDir c\<rparr>)"
proof -
  from p have sz: "Size h = of_nat (length body)"
    by (auto simp: packs_def split: walk_call.splits)
  have "sint (Size h) = int (length body)"
    unfolding sz using small by (intro sint_of_nat_64) simp
  with small have c1: "\<not> sint (Size h) > MaxFileSize" by (simp add: MaxFileSize_def)
  define st1 where "st1 = st\<lparr>totalSize := totalSize st + Size h\<rparr>"
  have t1: "totalSize st1 = of_nat (T + length body)" by (simp add: st1_def tot sz)
  have "sint (totalSize st1) = int (T + length body)"
    unfolding t1 using tot(2) by (intro sint_of_nat_64) simp
  with tot(2) have c2: "\<not> sint (totalSize st1) > MaxArchiveSize" by (simp add: MaxArchiveSize_def)
  define st2 where "st2 = st1\<lparr>fileCount := fileCount st1 + 1\<rparr>"
  have n2: "fileCount st2 = of_nat (N + 1)" by (simp add: st2_def st1_def cnt)
  have "sint (fileCount st2) = int (N + 1)"
    unfolding n2 using cnt(2) by (intro sint_of_nat_64) simp
  with cnt(2) have c3: "\<not> sint (fileCount st2) > MaxFiles" by (simp add: MaxFiles_def)
  have ap: "apply_entry recording_os destDir h body st2
            = (None, st2\<lparr>fs := fs st2 @ expected_calls src destDir c\<rparr>)"
    by (rule apply_entry_packed [OF p])
  have final: "st2\<lparr>fs := fs st2 @ expected_calls src destDir c\<rparr>
        = st\<lparr>totalSize := of_nat (T + length body), fileCount := of_nat (N + 1),
              fs := fs st @ expected_calls src destDir c\<rparr>"
    using t1 n2 by (simp add: st2_def st1_def)
  have "extract_loop recording_os destDir (TarEntry h body # rest) st
        = extract_loop recording_os destDir rest (st2\<lparr>fs := fs st2 @ expected_calls src destDir c\<rparr>)"
    using safe c1 c2 c3 ap
    by (simp add: Let_def st1_def [symmetric] st2_def [symmetric])
  with final show ?thesis by simp
qed

lemma packs_body_length:
  assumes "packs src c (h, body)"
  shows "length body = (if is_regular_object c then length (content_of src c) else 0)"
    and "is_object c" and "rel_of c = Name h"
  using assms
  by (auto simp: packs_def is_regular_object_def is_object_def content_of_def bytes_of_def rel_of_def
           split: walk_call.splits if_splits)

lemma regular_bytes_Cons:
  "regular_bytes src (c # cs)
   = (if is_regular_object c then length (content_of src c) else 0) + regular_bytes src cs"
  by (simp add: regular_bytes_def)

lemma extract_packed:
  assumes "list_all2 (packs src) objs new"
      and "\<forall>c \<in> set objs. isPathSafe (rel_of c) destDir"
      and "\<forall>c \<in> set objs. is_regular_object c \<longrightarrow> length (content_of src c) \<le> 104857600"
      and "totalSize st = of_nat T" and "T + regular_bytes src objs \<le> 1073741824"
      and "fileCount st = of_nat N" and "N + length objs \<le> 10000"
  shows "extract_loop recording_os destDir (map (\<lambda>(h, body). TarEntry h body) new) st
         = (None, st\<lparr>totalSize := of_nat (T + regular_bytes src objs),
                      fileCount := of_nat (N + length objs),
                      fs := fs st @ concat (map (expected_calls src destDir) objs)\<rparr>)"
  using assms
proof (induction objs new arbitrary: st T N rule: list_all2_induct)
  case Nil
  then show ?case by (simp add: regular_bytes_def)
next
  case (Cons c objs e new)
  obtain h body where e: "e = (h, body)" by (cases e)
  from Cons.hyps(1) e have p: "packs src c (h, body)" by simp
  note pl = packs_body_length [OF p]
  have safe: "isPathSafe (Name h) destDir" using Cons.prems(1) pl(3) by simp
  have small: "length body \<le> 104857600" using Cons.prems(2) pl(1) by simp
  have rb: "regular_bytes src (c # objs) = length body + regular_bytes src objs"
    by (simp add: regular_bytes_Cons pl(1))
  have tot2: "T + length body \<le> 1073741824" using Cons.prems(4) rb by simp
  have cnt2: "N + 1 \<le> 10000" using Cons.prems(6) by simp
  define st' where "st' = st\<lparr>totalSize := of_nat (T + length body), fileCount := of_nat (N + 1),
                 fs := fs st @ expected_calls src destDir c\<rparr>"
  have step: "extract_loop recording_os destDir (TarEntry h body # map (\<lambda>(h, body). TarEntry h body) new) st
         = extract_loop recording_os destDir (map (\<lambda>(h, body). TarEntry h body) new) st'"
    unfolding st'_def
    by (rule extract_step_packed [OF p safe small Cons.prems(3) tot2 Cons.prems(5) cnt2])
  have IH: "extract_loop recording_os destDir (map (\<lambda>(h, body). TarEntry h body) new) st'
         = (None, st'\<lparr>totalSize := of_nat ((T + length body) + regular_bytes src objs),
                      fileCount := of_nat ((N + 1) + length objs),
                      fs := fs st' @ concat (map (expected_calls src destDir) objs)\<rparr>)"
  proof (rule Cons.IH)
    show "\<forall>c \<in> set objs. isPathSafe (rel_of c) destDir" using Cons.prems(1) by simp
    show "\<forall>c \<in> set objs. is_regular_object c \<longrightarrow> length (content_of src c) \<le> 104857600"
      using Cons.prems(2) by simp
    show "totalSize st' = of_nat (T + length body)" by (simp add: st'_def)
    show "T + length body + regular_bytes src objs \<le> 1073741824" using Cons.prems(4) rb by simp
    show "fileCount st' = of_nat (N + 1)" by (simp add: st'_def)
    show "N + 1 + length objs \<le> 10000" using Cons.prems(6) by simp
  qed
  have "st'\<lparr>totalSize := of_nat ((T + length body) + regular_bytes src objs),
                      fileCount := of_nat ((N + 1) + length objs),
                      fs := fs st' @ concat (map (expected_calls src destDir) objs)\<rparr>
      = st\<lparr>totalSize := of_nat (T + regular_bytes src (c # objs)),
                      fileCount := of_nat (N + length (c # objs)),
                      fs := fs st @ concat (map (expected_calls src destDir) (c # objs))\<rparr>"
    by (simp add: st'_def rb add.assoc)
  with step IH e show ?case by simp
qed

lemma low9: "(x :: 64 word) AND 511 = take_bit 9 x"
proof -
  have "(511 :: 64 word) = mask 9" by (simp add: mask_eq_exp_minus_1)
  then show ?thesis by (simp add: take_bit_eq_mask)
qed

lemma low9': "(x :: 32 word) AND 511 = take_bit 9 x"
proof -
  have "(511 :: 32 word) = mask 9" by (simp add: mask_eq_exp_minus_1)
  then show ?thesis by (simp add: take_bit_eq_mask)
qed

lemma perm_kept: "Perm (ucast (tar_mode fm)) = Perm fm"
proof -
  have m: "ModePerm = 511" by (simp add: ModePerm_def)
  have hi: "take_bit 9 (if c then (k :: 64 word) else 0) = 0"
    if "take_bit 9 k = 0" for c k using that by simp
  have a: "take_bit 9 c_ISUID = 0" "take_bit 9 c_ISGID = 0" "take_bit 9 c_ISVTX = 0"
    by (simp_all add: c_ISUID_def c_ISGID_def c_ISVTX_def)
  have "take_bit 9 (tar_mode fm) = take_bit 9 (ucast (take_bit 9 fm) :: 64 word)"
    unfolding tar_mode_def Perm_def m low9'
    by (simp only: take_bit_or hi [OF a(1)] hi [OF a(2)] hi [OF a(3)] or.right_neutral)
  also have "\<dots> = ucast (take_bit 9 fm)"
    by (simp add: unsigned_take_bit_eq flip: take_bit_eq_self_iff_drop_bit_eq_0)
  finally have t: "take_bit 9 (tar_mode fm) = ucast (take_bit 9 fm)" .
  have "Perm (ucast (tar_mode fm)) = take_bit 9 (ucast (tar_mode fm) :: 32 word)"
    by (simp add: Perm_def m low9')
  also have "\<dots> = ucast (take_bit 9 (tar_mode fm))"
    by (rule bit_word_eqI) (auto simp: bit_simps)
  also have "\<dots> = ucast (ucast (take_bit 9 fm) :: 64 word)" by (simp only: t)
  also have "\<dots> = take_bit 9 fm"
    by (rule bit_word_eqI) (auto simp: bit_simps)
  also have "\<dots> = Perm fm" by (simp add: Perm_def m low9')
  finally show ?thesis .
qed


lemma expected_calls_nonobject: "\<not> is_object c \<Longrightarrow> expected_calls src destDir c = []"
  by (auto simp: is_object_def expected_calls_def split: walk_call.splits option.splits)

lemma concat_expected_objects:
  "concat (map (expected_calls src destDir) (filter is_object cs))
   = concat (map (expected_calls src destDir) cs)"
  by (induction cs) (simp_all add: expected_calls_nonobject)

lemma regular_bytes_objects: "regular_bytes src (filter is_object cs) = regular_bytes src cs"
proof -
  have "is_regular_object c \<Longrightarrow> is_object c" for c
    by (auto simp: is_regular_object_def is_object_def split: walk_call.splits option.splits)
  then have "filter is_regular_object (filter is_object cs) = filter is_regular_object cs"
    by (induction cs) auto
  then show ?thesis by (simp add: regular_bytes_def)
qed

text \<open>
  C2, as the code has it. Let \<open>Create\<close> succeed on a source directory in which every
  relative path passes the path check for the destination, no regular file is larger
  than 100 MiB, the regular files have at most 1 GiB together and there are at most
  10000 objects. Then \<open>Extract\<close> of the archive, on a filesystem whose calls succeed,
  ends without error or warning, and the calls it made are, in walk order, those that
  reproduce each object under the destination: the same relative path, the stored
  mode for directories and regular files, the same bytes for a regular file, the same
  target for a symbolic link. The stored mode has the permission bits of the source.
\<close>

theorem archive_round_trip:
  assumes created: "Create src archivePath = Inr (res, entries)"
      and safe: "\<forall>c \<in> set (walked src). is_object c \<longrightarrow> isPathSafe (rel_of c) destDir"
      and small: "\<forall>c \<in> set (walked src). is_regular_object c \<longrightarrow>
                    length (content_of src c) \<le> 104857600"
      and total: "regular_bytes src (walked src) \<le> 1073741824"
      and count: "length (filter is_object (walked src)) \<le> 10000"
  shows "Extract recording_os (archive_of entries) destDir []
         = (None, \<lparr>totalSize = of_nat (regular_bytes src (walked src)),
                   fileCount = of_nat (length (filter is_object (walked src))),
                   warnings = [],
                   fs = concat (map (expected_calls src destDir) (walked src))\<rparr>)
       \<and> (\<forall>fm. Perm (ucast (tar_mode fm)) = Perm fm)"
proof -
  let ?objs = "filter is_object (walked src)"
  let ?st0 = "\<lparr>totalSize = 0, fileCount = 0, warnings = [], fs = []\<rparr> :: syscall list extract_state"
  from created obtain st where
    w: "create_walk src (walked src)
          \<lparr>written = [], result = \<lparr>FilesAdded = 0, TotalSize = 0\<rparr>\<rparr> = Inr st"
    and e: "entries = written st"
    by (auto simp: Create_def split: if_splits sum.splits)
  from create_walk_packs [OF w] e have l: "list_all2 (packs src) ?objs entries" by simp
  have s1: "\<forall>c \<in> set ?objs. isPathSafe (rel_of c) destDir" using safe by simp
  have s2: "\<forall>c \<in> set ?objs. is_regular_object c \<longrightarrow> length (content_of src c) \<le> 104857600"
    using small by simp
  have t0: "totalSize ?st0 = of_nat 0" and n0: "fileCount ?st0 = of_nat 0" by simp_all
  have t1: "0 + regular_bytes src ?objs \<le> 1073741824"
    using total by (simp add: regular_bytes_objects)
  have n1: "0 + length ?objs \<le> 10000" using count by simp
  from extract_packed [OF l s1 s2 t0 t1 n0 n1]
  have "extract_loop recording_os destDir (map (\<lambda>(h, body). TarEntry h body) entries) ?st0
        = (None, \<lparr>totalSize = of_nat (regular_bytes src (walked src)),
                   fileCount = of_nat (length ?objs),
                   warnings = [],
                   fs = concat (map (expected_calls src destDir) (walked src))\<rparr>)"
    by (simp add: regular_bytes_objects concat_expected_objects)
  then have "Extract recording_os (archive_of entries) destDir []
         = (None, \<lparr>totalSize = of_nat (regular_bytes src (walked src)),
                   fileCount = of_nat (length ?objs),
                   warnings = [],
                   fs = concat (map (expected_calls src destDir) (walked src))\<rparr>)"
    by (simp add: Extract_def archive_of_def)
  with perm_kept show ?thesis by blast
qed

lemma docs_safe:
  "\<forall>c \<in> set (walked docs_source). is_object c \<longrightarrow> isPathSafe (rel_of c) ''/dst''"
  by code_simp

lemma docs_small:
  "\<forall>c \<in> set (walked docs_source). is_regular_object c \<longrightarrow>
      length (content_of docs_source c) \<le> 104857600"
  by (simp add: docs_source_def is_regular_object_def content_of_def bytes_of_def docs_holds_def
        mode_defs)

lemma docs_total: "regular_bytes docs_source (walked docs_source) = 5"
  by code_simp

lemma docs_count: "length (filter is_object (walked docs_source)) = 2"
  by code_simp

lemma docs_calls:
  "concat (map (expected_calls docs_source ''/dst'') (walked docs_source))
   = [MkdirAll ''/dst/docs'' 493, MkdirAll ''/dst/docs'' 493,
      OpenFile ''/dst/docs/a.txt'' 420, Copy ''/dst/docs/a.txt'' ''hello'']"
  by code_simp

theorem archive_round_trip_witness:
  "Extract recording_os
     (archive_of
        [(\<lparr>Name = ''docs'', Typeflag = TypeDir, Mode = 493, Size = 0, Linkname = []\<rparr>, []),
         (\<lparr>Name = ''docs/a.txt'', Typeflag = TypeReg, Mode = 420, Size = 5, Linkname = []\<rparr>,
          ''hello'')])
     ''/dst'' []
   = (None, \<lparr>totalSize = 5, fileCount = 2, warnings = [],
             fs = [MkdirAll ''/dst/docs'' 493, MkdirAll ''/dst/docs'' 493,
                   OpenFile ''/dst/docs/a.txt'' 420, Copy ''/dst/docs/a.txt'' ''hello'']\<rparr>)"
proof -
  have t: "regular_bytes docs_source (walked docs_source) \<le> 1073741824"
    by (simp add: docs_total)
  have n: "length (filter is_object (walked docs_source)) \<le> 10000"
    by (simp add: docs_count)
  from archive_round_trip [OF docs_created docs_safe docs_small t n]
  show ?thesis by (simp add: docs_total docs_count docs_calls)
qed

text \<open>
  C2. The claim is that every tree is reproduced. The regular file \<open>notes..txt\<close> is
  packed by \<open>Create\<close>, and \<open>Extract\<close> skips its entry, because the name contains two
  dots in a row: nothing is written to the destination.
\<close>

theorem dotted_name_lost_counterexample:
  "Create dots_source ''/tmp/notes.tar.xz''
   = Inr (\<lparr>FilesAdded = 1, TotalSize = 5\<rparr>,
          [(\<lparr>Name = ''notes..txt'', Typeflag = TypeReg, Mode = 420, Size = 5, Linkname = []\<rparr>,
            ''hello'')])
   \<and> Extract recording_os
        (archive_of
           [(\<lparr>Name = ''notes..txt'', Typeflag = TypeReg, Mode = 420, Size = 5, Linkname = []\<rparr>,
             ''hello'')])
        ''/dst'' []
     = (None, \<lparr>totalSize = 0, fileCount = 0, warnings = [SkippingUnsafePath ''notes..txt''],
               fs = []\<rparr>)"
  by code_simp

end
